theory Spec2Isabelle
  imports Main
begin

section \<open>Python string primitives used by the interviewer\<close>

text \<open>
  Strings are lists of characters. The characters that \<open>str.strip\<close> removes are the
  ones for which \<open>str.isspace\<close> holds; among the code points below 256 these are
  0x09-0x0D, 0x1C-0x20, 0x85 and 0xA0.
\<close>

definition whitespace :: "char list" where
  "whitespace = [CHR 0x09, CHR 0x0A, CHR 0x0B, CHR 0x0C, CHR 0x0D,
                 CHR 0x1C, CHR 0x1D, CHR 0x1E, CHR 0x1F, CHR 0x20, CHR 0x85, CHR 0xA0]"

definition is_space :: "char \<Rightarrow> bool" where
  "is_space c = (c \<in> set whitespace)"

definition strip :: "string \<Rightarrow> string" where
  "strip s = rev (dropWhile is_space (rev (dropWhile is_space s)))"

text \<open>\<open>sep.join(xs)\<close>.\<close>

fun join :: "string \<Rightarrow> string list \<Rightarrow> string" where
  "join sep [] = []"
| "join sep [x] = x"
| "join sep (x # y # ys) = x @ sep @ join sep (y # ys)"

definition startswith :: "string \<Rightarrow> string \<Rightarrow> bool" where
  "startswith s p = (take (length p) s = p)"

definition endswith :: "string \<Rightarrow> string \<Rightarrow> bool" where
  "endswith s p = (length p \<le> length s \<and> drop (length s - length p) s = p)"

text \<open>\<open>sub in s\<close>: some suffix of \<open>s\<close> starts with \<open>sub\<close>.\<close>

fun contains :: "string \<Rightarrow> string \<Rightarrow> bool" where
  "contains sub [] = (sub = [])"
| "contains sub (c # cs) = (startswith (c # cs) sub \<or> contains sub cs)"

text \<open>
  \<open>s.split(sep)\<close> for a non-empty separator: the text is scanned from the left, every
  occurrence of the separator found that way closes a part, and the scan resumes behind
  it. \<open>acc\<close> holds the current part reversed.
\<close>

fun split_acc :: "string \<Rightarrow> string \<Rightarrow> string \<Rightarrow> string list" where
  "split_acc sep acc [] = [rev acc]"
| "split_acc sep acc (c # cs) =
     (if startswith (c # cs) sep
      then rev acc # split_acc sep [] (drop (length sep - 1) cs)
      else split_acc sep (c # acc) cs)"

definition split :: "string \<Rightarrow> string \<Rightarrow> string list" where
  "split s sep = split_acc sep [] s"

text \<open>Decimal rendering of a natural number, as \<open>str(n)\<close> gives it.\<close>

definition digit_char :: "nat \<Rightarrow> char" where
  "digit_char d = char_of (48 + d)"

fun decimal :: "nat \<Rightarrow> string" where
  "decimal n = (if n < 10 then [digit_char n] else decimal (n div 10) @ [digit_char (n mod 10)])"

declare decimal.simps [simp del]

section \<open>transcript.py: the transcript ledger\<close>

text \<open>
  \<open>TranscriptManager\<close> keeps the rendered lines in \<open>_entries\<close>. \<open>has_whisper\<close> says
  whether the constructor could load the speech-recognition model. \<open>file_content\<close> is the
  content of the file at \<open>transcript_path\<close>: \<open>None\<close> until the first \<open>write_text\<close>,
  which replaces the whole content. \<open>write_count\<close> counts the calls of \<open>write_text\<close>.
\<close>

record TranscriptManager =
  entries :: "string list"
  has_whisper :: bool
  file_content :: "string option"
  write_count :: nat

definition new_transcript :: "bool \<Rightarrow> TranscriptManager" where
  "new_transcript w = \<lparr> entries = [], has_whisper = w, file_content = None, write_count = 0 \<rparr>"

definition render_line :: "string \<Rightarrow> string \<Rightarrow> string" where
  "render_line speaker text = speaker @ '': '' @ strip text"

definition append_tm :: "TranscriptManager \<Rightarrow> string \<Rightarrow> string \<Rightarrow> TranscriptManager" where
  "append_tm tm speaker text =
     (let es = entries tm @ [render_line speaker text]
      in tm\<lparr> entries := es,
             file_content := Some (join [CHR 0x0A] es),
             write_count := Suc (write_count tm) \<rparr>)"

text \<open>A sequence of \<open>append\<close> calls, each given as (speaker, text), oldest first.\<close>

fun appends :: "TranscriptManager \<Rightarrow> (string \<times> string) list \<Rightarrow> TranscriptManager" where
  "appends tm [] = tm"
| "appends tm ((speaker, text) # calls) = appends (append_tm tm speaker text) calls"


section \<open>Values the JSON decoder returns\<close>

text \<open>
  \<open>json.loads\<close> returns \<open>None\<close>, a bool, a number, a string, a list or a dict. Numbers
  are the integers; floating-point literals are left out of the model. A dict is an
  association list with distinct keys, in insertion order.
\<close>

datatype json =
    JNull
  | JBool bool
  | JInt int
  | JString string
  | JArray "json list"
  | JObject "(string \<times> json) list"

text \<open>\<open>d[k] = v\<close>: an existing key keeps its place and takes the new value.\<close>

fun dict_set :: "(string \<times> json) list \<Rightarrow> string \<Rightarrow> json \<Rightarrow> (string \<times> json) list" where
  "dict_set [] k v = [(k, v)]"
| "dict_set ((k', v') # kvs) k v =
     (if k' = k then (k, v) # kvs else (k', v') # dict_set kvs k v)"

text \<open>\<open>d.get(k, default)\<close>.\<close>

definition dict_get :: "(string \<times> json) list \<Rightarrow> string \<Rightarrow> json \<Rightarrow> json" where
  "dict_get kvs k d = (case map_of kvs k of Some v \<Rightarrow> v | None \<Rightarrow> d)"

text \<open>Truth value of a decoded value, as \<open>or\<close> and \<open>if\<close> test it.\<close>

fun truthy :: "json \<Rightarrow> bool" where
  "truthy JNull = False"
| "truthy (JBool b) = b"
| "truthy (JInt n) = (n \<noteq> 0)"
| "truthy (JString s) = (s \<noteq> [])"
| "truthy (JArray xs) = (xs \<noteq> [])"
| "truthy (JObject kvs) = (kvs \<noteq> [])"

subsection \<open>A decoder for the fragment of JSON without escapes and fractions\<close>

text \<open>
  The decoder of the standard library is not part of the repository. The flow planner
  below takes the decoder as a parameter \<open>loads\<close> (\<open>None\<close> stands for
  \<open>JSONDecodeError\<close>). \<open>json_loads\<close> is a decoder for documents built from arrays,
  objects, strings without backslash and control characters, integers and the three
  literals; it serves to run the planner on concrete responses of that form. It rejects
  every other text, in particular every text that does not begin (after blanks) with
  one of \<open>[ { " - 0..9 t f n\<close>.
\<close>

definition json_blank :: "char \<Rightarrow> bool" where
  "json_blank c = (c \<in> set [CHR 0x20, CHR 0x09, CHR 0x0A, CHR 0x0D])"

definition skip_ws :: "string \<Rightarrow> string" where
  "skip_ws s = dropWhile json_blank s"

definition is_digit :: "char \<Rightarrow> bool" where
  "is_digit c = (c \<in> set ''0123456789'')"

definition digit_val :: "char \<Rightarrow> nat" where
  "digit_val c = of_char c - 48"

definition digits_val :: "string \<Rightarrow> nat" where
  "digits_val ds = foldl (\<lambda>acc c. 10 * acc + digit_val c) 0 ds"

text \<open>The text of a string literal behind its opening quote, up to the closing one.\<close>

fun scan_string :: "string \<Rightarrow> string \<Rightarrow> (string \<times> string) option" where
  "scan_string acc [] = None"
| "scan_string acc (c # cs) =
     (if c = CHR 0x22 then Some (rev acc, cs)
      else if c = CHR 0x5C \<or> (of_char c :: nat) < 32 then None
      else scan_string (c # acc) cs)"

text \<open>An integer literal: an optional minus, then \<open>0\<close> or digits without a leading zero.\<close>

definition scan_int :: "string \<Rightarrow> (json \<times> string) option" where
  "scan_int s =
     (let neg = (s \<noteq> [] \<and> hd s = CHR ''-'');
          body = (if neg then tl s else s);
          ds = takeWhile is_digit body;
          rest = dropWhile is_digit body
      in if ds = [] then None
         else if hd ds = CHR ''0'' \<and> length ds > 1 then None
         else if rest \<noteq> [] \<and> hd rest \<in> set ''.eE'' then None
         else Some (JInt (if neg then - int (digits_val ds) else int (digits_val ds)), rest))"

text \<open>
  The three mutually recursive scanners take fuel: every call spends one unit, and a
  document of \<open>n\<close> characters needs at most \<open>2 * n + 2\<close>.
\<close>

fun scan_value :: "nat \<Rightarrow> string \<Rightarrow> (json \<times> string) option"
  and scan_items :: "nat \<Rightarrow> json list \<Rightarrow> string \<Rightarrow> (json \<times> string) option"
  and scan_members :: "nat \<Rightarrow> (string \<times> json) list \<Rightarrow> string \<Rightarrow> (json \<times> string) option"
where
  "scan_value 0 s = None"
| "scan_value (Suc n) s =
     (case skip_ws s of
        [] \<Rightarrow> None
      | c # cs \<Rightarrow>
          if c = CHR ''['' then
            (case skip_ws cs of
               [] \<Rightarrow> None
             | d # ds \<Rightarrow> if d = CHR '']'' then Some (JArray [], ds) else scan_items n [] cs)
          else if c = CHR ''{'' then
            (case skip_ws cs of
               [] \<Rightarrow> None
             | d # ds \<Rightarrow> if d = CHR ''}'' then Some (JObject [], ds) else scan_members n [] cs)
          else if c = CHR 0x22 then
            (case scan_string [] cs of None \<Rightarrow> None | Some (str, rest) \<Rightarrow> Some (JString str, rest))
          else if startswith (c # cs) ''true'' then Some (JBool True, drop 4 (c # cs))
          else if startswith (c # cs) ''false'' then Some (JBool False, drop 5 (c # cs))
          else if startswith (c # cs) ''null'' then Some (JNull, drop 4 (c # cs))
          else scan_int (c # cs))"
| "scan_items 0 acc s = None"
| "scan_items (Suc n) acc s =
     (case scan_value n s of
        None \<Rightarrow> None
      | Some (v, rest) \<Rightarrow>
          (case skip_ws rest of
             [] \<Rightarrow> None
           | c # cs \<Rightarrow>
               if c = CHR '','' then scan_items n (acc @ [v]) cs
               else if c = CHR '']'' then Some (JArray (acc @ [v]), cs)
               else None))"
| "scan_members 0 acc s = None"
| "scan_members (Suc n) acc s =
     (case skip_ws s of
        [] \<Rightarrow> None
      | q # qs \<Rightarrow>
          if q \<noteq> CHR 0x22 then None
          else
            (case scan_string [] qs of
               None \<Rightarrow> None
             | Some (k, after_key) \<Rightarrow>
                 (case skip_ws after_key of
                    [] \<Rightarrow> None
                  | c # cs \<Rightarrow>
                      if c \<noteq> CHR '':'' then None
                      else
                        (case scan_value n cs of
                           None \<Rightarrow> None
                         | Some (v, rest) \<Rightarrow>
                             (case skip_ws rest of
                                [] \<Rightarrow> None
                              | e # es \<Rightarrow>
                                  if e = CHR '','' then scan_members n (dict_set acc k v) es
                                  else if e = CHR ''}'' then Some (JObject (dict_set acc k v), es)
                                  else None)))))"

definition json_loads :: "string \<Rightarrow> json option" where
  "json_loads s =
     (case scan_value (2 * length s + 2) s of
        None \<Rightarrow> None
      | Some (v, rest) \<Rightarrow> if skip_ws rest = [] then Some v else None)"

section \<open>Errors\<close>

text \<open>
  The exceptions that can leave the functions modelled here. \<open>LLMClientError\<close> and
  \<open>RuntimeError\<close> carry their message. \<open>ExternalError\<close> is any exception raised inside
  a collaborator (provider SDK, browser automation, audio device, text-to-speech,
  speech recognition, file system), with its text.
\<close>

datatype error =
    LLMClientError string
  | RuntimeError string
  | AttributeError
  | TypeError
  | JSONDecodeError
  | ExternalError string

section \<open>settings.py\<close>

record LLMProviderConfig =
  provider :: string
  model :: string
  api_key :: "string option"
  extra :: "(string \<times> string) list"

record InterviewSettings =
  meeting_url :: string
  candidate_name :: string
  interviewer_name :: string
  cv_path :: string
  llm :: LLMProviderConfig
  transcript_path :: string
  audio_output_path :: string
  video_output_path :: string
  question_voice :: string
  capture_loopback_device :: "string option"
  virtual_microphone_device :: "string option"
  interview_outline :: "string option"
  warmup_prompt :: "string option"

definition DEFAULT_OUTLINE :: string where
  "DEFAULT_OUTLINE =
     ''1. Welcome the candidate and confirm audio quality.'' @ [CHR 0x0A] @
     ''2. Ask about the candidate's most relevant experience for the role.'' @ [CHR 0x0A] @
     ''3. Dive deeper into one technical project.'' @ [CHR 0x0A] @
     ''4. Explore behavioural competencies.'' @ [CHR 0x0A] @
     ''5. Provide time for candidate questions.'' @ [CHR 0x0A] @
     ''6. Close by explaining next steps.''"

text \<open>\<open>x or default\<close> for an optional string: \<open>None\<close> and the empty string are false.\<close>

definition or_default :: "string option \<Rightarrow> string \<Rightarrow> string" where
  "or_default x d = (case x of None \<Rightarrow> d | Some s \<Rightarrow> if s = [] then d else s)"

section \<open>llm.py: the provider client\<close>

text \<open>\<open>str.lower\<close> on the code points below 256.\<close>

definition lower_char :: "char \<Rightarrow> char" where
  "lower_char c =
     (let n = (of_char c :: nat)
      in if (65 \<le> n \<and> n \<le> 90) \<or> (192 \<le> n \<and> n \<le> 222 \<and> n \<noteq> 215) then char_of (n + 32) else c)"

definition lower :: "string \<Rightarrow> string" where
  "lower s = map lower_char s"

text \<open>
  The provider SDKs are collaborators. A \<open>backend\<close> gives the outcome of one request:
  which SDK, the credential, the model, the system prompt if one is sent, the user
  prompt and the token limit; it answers with the text of the reply or with the
  exception the SDK (or its import) raised. The sampling temperature is passed through
  unchanged and is left out.
\<close>

datatype sdk = OpenAI | Anthropic | Google

type_synonym backend =
  "sdk \<Rightarrow> string \<Rightarrow> string \<Rightarrow> string option \<Rightarrow> string \<Rightarrow> nat \<Rightarrow> error + string"

definition require_api_key :: "LLMProviderConfig \<Rightarrow> error + string" where
  "require_api_key config =
     (case api_key config of
        None \<Rightarrow> Inl (LLMClientError (''An API key is required for provider '' @ [CHR 0x27] @ provider config @ [CHR 0x27] @ ''.''))
      | Some k \<Rightarrow>
          if k = [] then Inl (LLMClientError (''An API key is required for provider '' @ [CHR 0x27] @ provider config @ [CHR 0x27] @ ''.''))
          else Inr k)"

definition generate_openai ::
  "backend \<Rightarrow> LLMProviderConfig \<Rightarrow> string \<Rightarrow> string option \<Rightarrow> nat \<Rightarrow> error + string" where
  "generate_openai be config prompt system_prompt max_output_tokens =
     (case require_api_key config of
        Inl e \<Rightarrow> Inl e
      | Inr key \<Rightarrow>
          (case be OpenAI key (model config)
                  (case system_prompt of None \<Rightarrow> None | Some s \<Rightarrow> if s = [] then None else Some s)
                  prompt max_output_tokens of
             Inl e \<Rightarrow> Inl e
           | Inr content \<Rightarrow> Inr (strip content)))"

definition generate_anthropic ::
  "backend \<Rightarrow> LLMProviderConfig \<Rightarrow> string \<Rightarrow> string option \<Rightarrow> nat \<Rightarrow> error + string" where
  "generate_anthropic be config prompt system_prompt max_output_tokens =
     (case require_api_key config of
        Inl e \<Rightarrow> Inl e
      | Inr key \<Rightarrow>
          (case be Anthropic key (model config)
                  (Some (or_default system_prompt ''You are a helpful interview copilot.''))
                  prompt max_output_tokens of
             Inl e \<Rightarrow> Inl e
           | Inr content \<Rightarrow> Inr (strip content)))"

definition generate_google ::
  "backend \<Rightarrow> LLMProviderConfig \<Rightarrow> string \<Rightarrow> string option \<Rightarrow> nat \<Rightarrow> error + string" where
  "generate_google be config prompt system_prompt max_output_tokens =
     (case require_api_key config of
        Inl e \<Rightarrow> Inl e
      | Inr key \<Rightarrow>
          (case be Google key (model config) None
                  (case system_prompt of
                     None \<Rightarrow> prompt
                   | Some s \<Rightarrow>
                       if s = [] then prompt
                       else ''System: '' @ s @ [CHR 0x0A, CHR 0x0A] @ ''User: '' @ prompt)
                  max_output_tokens of
             Inl e \<Rightarrow> Inl e
           | Inr text \<Rightarrow> Inr (strip text)))"

text \<open>\<open>LLMClient.generate\<close>: the content of the response, or the exception.\<close>

definition generate ::
  "backend \<Rightarrow> LLMProviderConfig \<Rightarrow> string \<Rightarrow> string option \<Rightarrow> nat \<Rightarrow> error + string" where
  "generate be config prompt system_prompt max_output_tokens =
     (let p = lower (provider config)
      in if p = ''openai'' then generate_openai be config prompt system_prompt max_output_tokens
         else if p = ''anthropic'' then generate_anthropic be config prompt system_prompt max_output_tokens
         else if p \<in> set [''google'', ''gemini'', ''google-genai'']
           then generate_google be config prompt system_prompt max_output_tokens
         else Inl (LLMClientError (''Unsupported provider '' @ [CHR 0x27] @ provider config @ [CHR 0x27] @ ''.'')))"

section \<open>interview\_flow.py: the flow planner\<close>

text \<open>
  The fields of an \<open>InterviewStep\<close> hold whatever the decoded item held: the
  constructor does not check them.
\<close>

record InterviewStep =
  title :: json
  question :: json
  followups :: json

record InterviewFlow =
  flow_llm :: LLMProviderConfig
  flow_cv_text :: string
  outline :: string
  flow_warmup_prompt :: string
  steps :: "InterviewStep list"
  current_index :: nat

definition new_flow ::
  "LLMProviderConfig \<Rightarrow> string \<Rightarrow> string option \<Rightarrow> string option \<Rightarrow> InterviewFlow" where
  "new_flow config cv ol wp =
     \<lparr> flow_llm = config, flow_cv_text = cv,
       outline = or_default ol DEFAULT_OUTLINE,
       flow_warmup_prompt = or_default wp ''Warmly welcome the candidate.'',
       steps = [], current_index = 0 \<rparr>"

definition build_prompt :: "InterviewFlow \<Rightarrow> string" where
  "build_prompt flow =
     [CHR 0x0A] @ ''You are preparing to interview a candidate.'' @ [CHR 0x0A] @
     ''CV:'' @ [CHR 0x0A] @ flow_cv_text flow @ [CHR 0x0A, CHR 0x0A] @
     ''Interview outline:'' @ [CHR 0x0A] @ outline flow @ [CHR 0x0A, CHR 0x0A] @
     ''Return a JSON array where each item has the following keys:'' @ [CHR 0x0A] @
     ''- title: short string for UI display'' @ [CHR 0x0A] @
     ''- question: the primary question to ask'' @ [CHR 0x0A] @
     ''- followups: array of short follow-up prompts to dive deeper'' @ [CHR 0x0A, CHR 0x0A] @
     ''Start with an item called \"Welcome\" that follows this warmup instruction: '' @
     flow_warmup_prompt flow @ ''.'' @ [CHR 0x0A]"

definition fence :: string where
  "fence = ''```''"

text \<open>The loop of \<open>_extract_json_block\<close> over the parts between fences.\<close>

fun first_bracketed :: "string list \<Rightarrow> string option" where
  "first_bracketed [] = None"
| "first_bracketed (part # parts) =
     (let candidate = strip part
      in if startswith candidate ''['' \<and> endswith candidate '']'' then Some candidate
         else first_bracketed parts)"

definition extract_json_block :: "string \<Rightarrow> string option" where
  "extract_json_block text =
     (if \<not> contains fence text then None else first_bracketed (split text fence))"

text \<open>One item of the decoded plan, at position \<open>idx\<close>; only a dict has \<open>get\<close>.\<close>

definition step_of_item :: "nat \<Rightarrow> json \<Rightarrow> error + InterviewStep" where
  "step_of_item idx item =
     (case item of
        JObject kvs \<Rightarrow>
          Inr \<lparr> title = dict_get kvs ''title'' (JString (''Step '' @ decimal (idx + 1))),
                question = dict_get kvs ''question'' (JString ''''),
                followups = (let f = dict_get kvs ''followups'' (JArray [])
                             in if truthy f then f else JArray []) \<rparr>
      | _ \<Rightarrow> Inl AttributeError)"

text \<open>The comprehension over \<open>enumerate(items)\<close>: it stops at the first item that raises.\<close>

fun steps_from :: "nat \<Rightarrow> json list \<Rightarrow> error + InterviewStep list" where
  "steps_from idx [] = Inr []"
| "steps_from idx (item # items) =
     (case step_of_item idx item of
        Inl e \<Rightarrow> Inl e
      | Inr s \<Rightarrow> (case steps_from (Suc idx) items of Inl e \<Rightarrow> Inl e | Inr ss \<Rightarrow> Inr (s # ss)))"

text \<open>
  What \<open>enumerate(data)\<close> runs over: the elements of a list, the keys of a dict, the
  characters of a string; the other values are not iterable.
\<close>

fun iterate :: "json \<Rightarrow> error + json list" where
  "iterate (JArray xs) = Inr xs"
| "iterate (JObject kvs) = Inr (map (\<lambda>(k, v). JString k) kvs)"
| "iterate (JString s) = Inr (map (\<lambda>c. JString [c]) s)"
| "iterate _ = Inl TypeError"

definition steps_of_data :: "json \<Rightarrow> error + InterviewStep list" where
  "steps_of_data data = (case iterate data of Inl e \<Rightarrow> Inl e | Inr items \<Rightarrow> steps_from 0 items)"

text \<open>
  \<open>InterviewFlow.build\<close>, from the content of the response on: the result or the
  exception, and the flow afterwards. The two fields are only assigned when the
  comprehension has finished.
\<close>

definition store_steps :: "InterviewFlow \<Rightarrow> json \<Rightarrow> (error + InterviewStep list) \<times> InterviewFlow" where
  "store_steps flow data =
     (case steps_of_data data of
        Inl e \<Rightarrow> (Inl e, flow)
      | Inr ss \<Rightarrow> (Inr ss, flow\<lparr> steps := ss, current_index := 0 \<rparr>))"

definition parse_plan ::
  "(string \<Rightarrow> json option) \<Rightarrow> InterviewFlow \<Rightarrow> string \<Rightarrow> (error + InterviewStep list) \<times> InterviewFlow" where
  "parse_plan loads flow raw =
     (case loads raw of
        Some data \<Rightarrow> store_steps flow data
      | None \<Rightarrow>
          (case extract_json_block raw of
             None \<Rightarrow> (Inl (LLMClientError ''Failed to parse interview plan from the language model response''), flow)
           | Some cleaned \<Rightarrow>
               if cleaned = [] then
                 (Inl (LLMClientError ''Failed to parse interview plan from the language model response''), flow)
               else
                 (case loads cleaned of
                    None \<Rightarrow> (Inl JSONDecodeError, flow)
                  | Some data \<Rightarrow> store_steps flow data)))"

definition build ::
  "backend \<Rightarrow> (string \<Rightarrow> json option) \<Rightarrow> InterviewFlow \<Rightarrow> (error + InterviewStep list) \<times> InterviewFlow" where
  "build be loads flow =
     (case generate be (flow_llm flow) (build_prompt flow) None 1024 of
        Inl e \<Rightarrow> (Inl e, flow)
      | Inr raw \<Rightarrow> parse_plan loads flow raw)"

definition next_step :: "InterviewFlow \<Rightarrow> InterviewStep option \<times> InterviewFlow" where
  "next_step flow =
     (if current_index flow \<ge> length (steps flow) then (None, flow)
      else (Some (steps flow ! current_index flow), flow\<lparr> current_index := current_index flow + 1 \<rparr>))"

text \<open>\<open>n\<close> successive calls of \<open>next_step\<close>: what they returned, and the flow afterwards.\<close>

fun next_steps :: "nat \<Rightarrow> InterviewFlow \<Rightarrow> InterviewStep option list \<times> InterviewFlow" where
  "next_steps 0 flow = ([], flow)"
| "next_steps (Suc n) flow =
     (let (r, flow') = next_step flow; (rs, flow'') = next_steps n flow' in (r # rs, flow''))"

section \<open>The collaborators of a session\<close>

text \<open>
  Every call that leaves the repository has a \<open>site\<close>. A \<open>world\<close> fixes, for one run,
  which of these calls raise (\<open>fault\<close>) and what the others answer: the text the CV
  extractor returns, the provider backend, the JSON decoder, \<open>str\<close> of a decoded value
  that is not a string, whether the speech model could be loaded, the outcome of the
  speech recognition (the segments, or the text of its exception), and for every step
  index \<open>i\<close> whether an observer has called \<open>stop()\<close> since the previous check of the
  cancellation flag (for \<open>i = 0\<close>: since \<open>start()\<close> cleared it).
\<close>

datatype site =
    ExtractText
  | LedgerWrite nat
  | TtsInit
  | AudioDir
  | WriterOpen
  | StreamOpen
  | StreamStart
  | StreamStop
  | StreamClose
  | VideoDir
  | MeetEnter
  | TtsSpeak nat
  | PageWait nat
  | SendChat
  | MeetLeave
  | MeetExit
  | Whisper

record world =
  fault :: "site \<Rightarrow> error option"
  document :: string
  llm_backend :: backend
  decoder :: "string \<Rightarrow> json option"
  py_str :: "json \<Rightarrow> string"
  whisper_loads :: bool
  segments :: "string + string list"
  stop_called :: "nat \<Rightarrow> bool"

section \<open>transcript.py: transcription and summary\<close>

text \<open>
  \<open>append\<close> with the file system of the world: when \<open>mkdir\<close> or \<open>write_text\<close> raises,
  the entry is already in \<open>_entries\<close> and the file is as it was.
\<close>

definition append_io ::
  "error option \<Rightarrow> TranscriptManager \<Rightarrow> string \<Rightarrow> string \<Rightarrow> error option \<times> TranscriptManager" where
  "append_io fs tm speaker text =
     (case fs of
        Some e \<Rightarrow> (Some e, tm\<lparr> entries := entries tm @ [render_line speaker text] \<rparr>)
      | None \<Rightarrow> (None, append_tm tm speaker text))"

definition transcribe_audio ::
  "error option \<Rightarrow> string + string list \<Rightarrow> TranscriptManager \<Rightarrow> error + string" where
  "transcribe_audio raised outcome tm =
     (if \<not> has_whisper tm then
        Inl (RuntimeError ''faster-whisper is not installed. Install it or provide an OpenAI key'')
      else
        (case raised of
           Some e \<Rightarrow> Inl e
         | None \<Rightarrow>
             (case outcome of
                Inl msg \<Rightarrow> Inl (ExternalError msg)
              | Inr segs \<Rightarrow> Inr (strip (join '' '' (map strip segs))))))"

definition summary_prompt :: "TranscriptManager \<Rightarrow> string" where
  "summary_prompt tm =
     ''Transcript:'' @ [CHR 0x0A] @ join [CHR 0x0A] (entries tm) @ [CHR 0x0A, CHR 0x0A] @
     ''Summarise the interview transcript focusing on strengths, risks, and recommendations.''"

definition summary :: "backend \<Rightarrow> LLMProviderConfig \<Rightarrow> TranscriptManager \<Rightarrow> error + string" where
  "summary be config tm =
     (case generate be config (summary_prompt tm) None 400 of
        Inl e \<Rightarrow> Inl e
      | Inr content \<Rightarrow> Inr (strip content))"

text \<open>
  \<open>str(exc)\<close>. The exceptions raised by the interpreter and by the decoder carry no
  text in this model; none of them reaches a handler that formats it.
\<close>

fun exc_str :: "error \<Rightarrow> string" where
  "exc_str (LLMClientError m) = m"
| "exc_str (RuntimeError m) = m"
| "exc_str (ExternalError m) = m"
| "exc_str AttributeError = []"
| "exc_str TypeError = []"
| "exc_str JSONDecodeError = []"

section \<open>audio.py: recorder and bridge\<close>

text \<open>
  The fields of \<open>SystemAudioRecorder\<close> that \<open>start\<close> and \<open>stop\<close> assign: the event
  \<open>_running\<close>, and whether \<open>_writer\<close>, \<open>_stream\<close> and \<open>_thread\<close> hold an object. The
  writer thread runs beside the session; of what it does, the state shows only that
  \<open>_writer\<close> is reset once the thread has been joined.
\<close>

record SystemAudioRecorder =
  running :: bool
  writer_set :: bool
  stream_set :: bool
  thread_set :: bool

definition new_recorder :: SystemAudioRecorder where
  "new_recorder = \<lparr> running = False, writer_set = False, stream_set = False, thread_set = False \<rparr>"

definition recorder_start ::
  "(site \<Rightarrow> error option) \<Rightarrow> SystemAudioRecorder \<Rightarrow> error option \<times> SystemAudioRecorder" where
  "recorder_start ft r =
     (case ft AudioDir of
        Some e \<Rightarrow> (Some e, r)
      | None \<Rightarrow>
          (case ft WriterOpen of
             Some e \<Rightarrow> (Some e, r)
           | None \<Rightarrow>
               (let r1 = r\<lparr> writer_set := True, running := True \<rparr>
                in case ft StreamOpen of
                     Some e \<Rightarrow> (Some e, r1)
                   | None \<Rightarrow>
                       (let r2 = r1\<lparr> stream_set := True \<rparr>
                        in case ft StreamStart of
                             Some e \<Rightarrow> (Some e, r2)
                           | None \<Rightarrow> (None, r2\<lparr> thread_set := True \<rparr>)))))"

text \<open>
  The end of \<open>stop\<close>: a live writer thread is joined. With the event cleared that
  thread drains the queue, closes the writer and resets \<open>_writer\<close>; the join is taken
  to see it finish within its two seconds. Without a thread nothing happens. Joining
  does not raise.
\<close>

definition join_writer :: "SystemAudioRecorder \<Rightarrow> SystemAudioRecorder" where
  "join_writer r = (if thread_set r then r\<lparr> writer_set := False \<rparr> else r)"

text \<open>
  \<open>SystemAudioRecorder.stop\<close>. The event is cleared first. The stream is stopped and
  closed only when the field holds one, and the field is reset after both calls have
  returned; when one of them raises, \<open>stop\<close> ends there, with the stream still in its
  field and the writer thread not joined.
\<close>

definition recorder_stop ::
  "(site \<Rightarrow> error option) \<Rightarrow> SystemAudioRecorder \<Rightarrow> error option \<times> SystemAudioRecorder" where
  "recorder_stop ft r =
     (let r1 = r\<lparr> running := False \<rparr>
      in if stream_set r1 then
           (case ft StreamStop of
              Some e \<Rightarrow> (Some e, r1)
            | None \<Rightarrow>
                (case ft StreamClose of
                   Some e \<Rightarrow> (Some e, r1)
                 | None \<Rightarrow> (None, join_writer (r1\<lparr> stream_set := False \<rparr>))))
         else (None, join_writer r1))"

text \<open>\<open>AudioBridge\<close> holds the recorder and the speech engine; \<open>start\<close> and \<open>stop\<close> delegate.\<close>

definition bridge_start ::
  "(site \<Rightarrow> error option) \<Rightarrow> SystemAudioRecorder \<Rightarrow> error option \<times> SystemAudioRecorder" where
  "bridge_start ft r = recorder_start ft r"

definition bridge_stop ::
  "(site \<Rightarrow> error option) \<Rightarrow> SystemAudioRecorder \<Rightarrow> error option \<times> SystemAudioRecorder" where
  "bridge_stop ft r = recorder_stop ft r"

section \<open>controller.py: one run of the interview\<close>

text \<open>
  What a run leaves behind is a trace: the notifications to the three observers, every
  call of \<open>LLMClient.generate\<close> with its prompt, every call of \<open>bridge.start\<close> and
  \<open>bridge.stop\<close>, every call made at a site inside the controller, the ledger, the
  meeting client and the speech recognition (recorded when it is made, whether it
  raises or not), and the timed waits.
\<close>

datatype event =
    Status string
  | Transcript string
  | Summary string
  | Generate string
  | BridgeStart
  | BridgeStop
  | Call site
  | Sleep nat

record session =
  trace :: "event list"
  transcript :: TranscriptManager
  recorder :: SystemAudioRecorder
  stop_event :: bool

definition emit :: "event \<Rightarrow> session \<Rightarrow> session" where
  "emit e st = st\<lparr> trace := trace st @ [e] \<rparr>"

definition call :: "world \<Rightarrow> site \<Rightarrow> session \<Rightarrow> error option \<times> session" where
  "call w s st = (fault w s, emit (Call s) st)"

text \<open>The character U+2026 of the status texts, in UTF-8.\<close>

definition ellipsis :: string where
  "ellipsis = [CHR 0xE2, CHR 0x80, CHR 0xA6]"

text \<open>\<open>transcript.append(speaker, text)\<close> inside the run.\<close>

definition ledger_append :: "world \<Rightarrow> string \<Rightarrow> string \<Rightarrow> session \<Rightarrow> error option \<times> session" where
  "ledger_append w speaker text st =
     (let n = length (entries (transcript st));
          (r, tm) = append_io (fault w (LedgerWrite n)) (transcript st) speaker text
      in (r, (emit (Call (LedgerWrite n)) st)\<lparr> transcript := tm \<rparr>))"

text \<open>\<open>f"(Optional follow-up) {follow}"\<close>: a string is inserted as it is.\<close>

definition format_follow :: "world \<Rightarrow> json \<Rightarrow> string" where
  "format_follow w follow =
     ''(Optional follow-up) '' @ (case follow of JString s \<Rightarrow> s | _ \<Rightarrow> py_str w follow)"

fun annotate :: "world \<Rightarrow> string \<Rightarrow> json list \<Rightarrow> session \<Rightarrow> error option \<times> session" where
  "annotate w name [] st = (None, st)"
| "annotate w name (follow # follows) st =
     (case ledger_append w name (format_follow w follow) st of
        (Some e, st1) \<Rightarrow> (Some e, st1)
      | (None, st1) \<Rightarrow> annotate w name follows st1)"

text \<open>The body of the loop for the step at index \<open>i\<close>, behind the check of the flag.\<close>

definition process_step ::
  "world \<Rightarrow> string \<Rightarrow> nat \<Rightarrow> InterviewStep \<Rightarrow> session \<Rightarrow> error option \<times> session" where
  "process_step w name i step st =
     (case question step of
        JString prompt \<Rightarrow>
          (case ledger_append w name prompt st of
             (Some e, st1) \<Rightarrow> (Some e, st1)
           | (None, st1) \<Rightarrow>
               (let st2 = emit (Transcript (join [CHR 0x0A] (entries (transcript st1)))) st1
                in case call w (TtsSpeak i) st2 of
                     (Some e, st3) \<Rightarrow> (Some e, st3)
                   | (None, st3) \<Rightarrow>
                       (case iterate (followups step) of
                          Inl e \<Rightarrow> (Some e, st3)
                        | Inr follows \<Rightarrow>
                            (case annotate w name follows st3 of
                               (Some e, st4) \<Rightarrow> (Some e, st4)
                             | (None, st4) \<Rightarrow>
                                 (case call w (PageWait i) st4 of
                                    (Some e, st5) \<Rightarrow> (Some e, st5)
                                  | (None, st5) \<Rightarrow>
                                      (None, emit (Sleep 20)
                                               (emit (Status (''Waiting for candidate response'' @ ellipsis)) st5)))))))
      | _ \<Rightarrow> (Some AttributeError, st))"

text \<open>
  The loop over the plan, from index \<open>i\<close> on. At the top of every iteration the flag is
  read; it is set when it was set before or \<open>stop()\<close> has been called since.
\<close>

fun interview ::
  "world \<Rightarrow> string \<Rightarrow> nat \<Rightarrow> InterviewStep list \<Rightarrow> session \<Rightarrow> error option \<times> session" where
  "interview w name i [] st = (None, st)"
| "interview w name i (step # rest) st =
     (let st0 = st\<lparr> stop_event := stop_event st \<or> stop_called w i \<rparr>
      in if stop_event st0 then (None, st0)
         else
           (case process_step w name i step st0 of
              (Some e, st1) \<Rightarrow> (Some e, st1)
            | (None, st1) \<Rightarrow> interview w name (Suc i) rest st1))"

text \<open>The two calls behind the loop, inside the meeting.\<close>

definition farewell :: "world \<Rightarrow> session \<Rightarrow> error option \<times> session" where
  "farewell w st =
     (case call w SendChat st of
        (Some e, st1) \<Rightarrow> (Some e, st1)
      | (None, st1) \<Rightarrow> call w MeetLeave st1)"

text \<open>
  \<open>async with meet.session() as page\<close>: when entering raises, the body does not run;
  otherwise the exit code of the context manager runs however the body ended, and an
  exception it raises replaces the one of the body.
\<close>

definition meet_session ::
  "world \<Rightarrow> InterviewSettings \<Rightarrow> InterviewStep list \<Rightarrow> session \<Rightarrow> error option \<times> session" where
  "meet_session w settings plan st =
     (case call w MeetEnter st of
        (Some e, st1) \<Rightarrow> (Some e, st1)
      | (None, st1) \<Rightarrow>
          (let st2 = emit (Status (''Connected to Google Meet. Beginning interview'' @ ellipsis)) st1;
               (r, st3) = interview w (interviewer_name settings) 0 plan st2;
               (r', st4) = (case r of Some e \<Rightarrow> (Some e, st3) | None \<Rightarrow> farewell w st3)
           in case call w MeetExit st4 of
                (Some e, st5) \<Rightarrow> (Some e, st5)
              | (None, st5) \<Rightarrow> (r', st5)))"

text \<open>\<open>try: ... finally: bridge.stop()\<close>.\<close>

definition stop_bridge :: "world \<Rightarrow> session \<Rightarrow> error option \<times> session" where
  "stop_bridge w st =
     (let st1 = emit BridgeStop st;
          (r, rec) = bridge_stop (fault w) (recorder st1)
      in (r, st1\<lparr> recorder := rec \<rparr>))"

definition guarded_session ::
  "world \<Rightarrow> InterviewSettings \<Rightarrow> InterviewStep list \<Rightarrow> session \<Rightarrow> error option \<times> session" where
  "guarded_session w settings plan st =
     (let (r, st1) = meet_session w settings plan st;
          (r', st2) = stop_bridge w st1
      in (case r' of Some e \<Rightarrow> (Some e, st2) | None \<Rightarrow> (r, st2)))"

text \<open>The part of the run before the meeting: CV, plan, ledger, audio.\<close>

definition start_session :: "world \<Rightarrow> session" where
  "start_session w =
     \<lparr> trace = [], transcript = new_transcript (whisper_loads w),
       recorder = new_recorder, stop_event = False \<rparr>"

definition prepare ::
  "world \<Rightarrow> InterviewSettings \<Rightarrow> session \<Rightarrow> (error + InterviewStep list) \<times> session" where
  "prepare w settings st =
     (case call w ExtractText (emit (Status (''Parsing CV document'' @ ellipsis)) st) of
        (Some e, st1) \<Rightarrow> (Inl e, st1)
      | (None, st1) \<Rightarrow>
          (let st2 = emit (Status (''Generating interview flow with LLM'' @ ellipsis)) st1;
               flow = new_flow (llm settings) (document w) (interview_outline settings) (warmup_prompt settings)
           in (fst (build (llm_backend w) (decoder w) flow), emit (Generate (build_prompt flow)) st2)))"

definition start_audio :: "world \<Rightarrow> session \<Rightarrow> error option \<times> session" where
  "start_audio w st =
     (case call w TtsInit st of
        (Some e, st1) \<Rightarrow> (Some e, st1)
      | (None, st1) \<Rightarrow>
          (let (r, rec) = bridge_start (fault w) (recorder st1);
               st2 = (emit BridgeStart st1)\<lparr> recorder := rec \<rparr>
           in case r of
                Some e \<Rightarrow> (Some e, st2)
              | None \<Rightarrow> call w VideoDir st2))"

text \<open>The part of the run behind the \<open>finally\<close>: transcription, candidate entry, summary.\<close>

definition candidate_text :: "world \<Rightarrow> TranscriptManager \<Rightarrow> string" where
  "candidate_text w tm =
     (case transcribe_audio (fault w Whisper) (segments w) tm of
        Inr text \<Rightarrow> text
      | Inl exc \<Rightarrow> ''[Transcription unavailable: '' @ exc_str exc @ '']'')"

definition transcribing :: "session \<Rightarrow> session" where
  "transcribing st = (if has_whisper (transcript st) then emit (Call Whisper) st else st)"

definition wrap_up :: "world \<Rightarrow> InterviewSettings \<Rightarrow> session \<Rightarrow> error option \<times> session" where
  "wrap_up w settings st =
     (let st1 = transcribing st
      in case ledger_append w (candidate_name settings) (candidate_text w (transcript st1)) st1 of
           (Some e, st2) \<Rightarrow> (Some e, st2)
         | (None, st2) \<Rightarrow>
             (let st3 = emit (Transcript (join [CHR 0x0A] (entries (transcript st2)))) st2;
                  st4 = emit (Generate (summary_prompt (transcript st3))) st3
              in case summary (llm_backend w) (llm settings) (transcript st4) of
                   Inl e \<Rightarrow> (Some e, st4)
                 | Inr text \<Rightarrow> (None, emit (Status ''Interview complete.'') (emit (Summary text) st4))))"

text \<open>
  \<open>InterviewController._async_run\<close>: the exception that ends the run, if any, and the
  session. \<open>conduct\<close> is the run up to and including the \<open>finally\<close>; when it raises,
  nothing behind it is executed.
\<close>

definition conduct :: "world \<Rightarrow> InterviewSettings \<Rightarrow> error option \<times> session" where
  "conduct w settings =
     (case prepare w settings (start_session w) of
        (Inl e, st1) \<Rightarrow> (Some e, st1)
      | (Inr plan, st1) \<Rightarrow>
          (case start_audio w st1 of
             (Some e, st2) \<Rightarrow> (Some e, st2)
           | (None, st2) \<Rightarrow> guarded_session w settings plan st2))"

definition async_run :: "world \<Rightarrow> InterviewSettings \<Rightarrow> error option \<times> session" where
  "async_run w settings =
     (case conduct w settings of
        (Some e, st) \<Rightarrow> (Some e, st)
      | (None, st) \<Rightarrow> wrap_up w settings st)"

section \<open>Reading a trace and a plan\<close>

text \<open>
  The indices of the steps whose question was handed to the speech engine, and the
  status texts, both in the order of the trace; the ledger lines of one step: the line
  of its question, and the lines of its follow-ups.
\<close>

fun asked :: "event list \<Rightarrow> nat list" where
  "asked [] = []"
| "asked (Call (TtsSpeak i) # es) = i # asked es"
| "asked (e # es) = asked es"

fun statuses :: "event list \<Rightarrow> string list" where
  "statuses [] = []"
| "statuses (Status s # es) = s # statuses es"
| "statuses (e # es) = statuses es"



section \<open>Concrete sessions\<close>

text \<open>
  Worlds, settings and responses on which the model is run: a backend that answers the
  plan request (token limit 1024) with one text and every other request with another,
  a world in which no call raises, and the settings of a session with a credential.
\<close>

definition canned :: "string \<Rightarrow> string \<Rightarrow> backend" where
  "canned plan_text other_text = (\<lambda>kind key mdl sys prompt limit. Inr (if limit = 1024 then plan_text else other_text))"

definition no_fault :: "site \<Rightarrow> error option" where
  "no_fault = (\<lambda>s. None)"

definition fault_at :: "site \<Rightarrow> error \<Rightarrow> site \<Rightarrow> error option" where
  "fault_at s e = (\<lambda>s'. if s' = s then Some e else None)"

definition never :: "nat \<Rightarrow> bool" where
  "never = (\<lambda>i. False)"

definition at_boundary :: "nat \<Rightarrow> nat \<Rightarrow> bool" where
  "at_boundary k = (\<lambda>i. i = k)"

definition py_str_simple :: "json \<Rightarrow> string" where
  "py_str_simple v =
     (case v of JNull \<Rightarrow> ''None'' | JBool b \<Rightarrow> (if b then ''True'' else ''False'')
      | JInt n \<Rightarrow> (if n < 0 then ''-'' @ decimal (nat (- n)) else decimal (nat n))
      | _ \<Rightarrow> ''...'')"

definition demo_world :: "string \<Rightarrow> (site \<Rightarrow> error option) \<Rightarrow> (nat \<Rightarrow> bool) \<Rightarrow> world" where
  "demo_world plan_text ft stops =
     \<lparr> fault = ft, document = ''Ten years of plumbing.'',
       llm_backend = canned plan_text ''Strong candidate.'',
       decoder = json_loads, py_str = py_str_simple, whisper_loads = False,
       segments = Inr [], stop_called = stops \<rparr>"

definition demo_config :: "string option \<Rightarrow> LLMProviderConfig" where
  "demo_config key = \<lparr> provider = ''openai'', model = ''gpt-4o-mini'', api_key = key, extra = [] \<rparr>"

definition demo_settings :: "string option \<Rightarrow> InterviewSettings" where
  "demo_settings key =
     \<lparr> meeting_url = ''https://meet.google.com/abc'', candidate_name = ''Bob'',
       interviewer_name = ''AI'', cv_path = ''cv.txt'', llm = demo_config key,
       transcript_path = ''t/cv.txt'', audio_output_path = ''a/cv.wav'',
       video_output_path = ''v/cv.webm'', question_voice = ''en-US-Wavenet-D'',
       capture_loopback_device = None, virtual_microphone_device = None,
       interview_outline = None, warmup_prompt = None \<rparr>"


definition two_step_plan :: string where
  "two_step_plan = ''[{\"title\": \"Welcome\", \"question\": \"How are you?\"}, {\"question\": \"Why us?\", \"followups\": [\"Since when?\"]}]''"

definition demo_flow :: InterviewFlow where
  "demo_flow = new_flow (demo_config (Some ''sk-1'')) ''Ten years of plumbing.'' None None"

definition two_steps :: "InterviewStep list" where
  "two_steps =
     [\<lparr> title = JString ''Welcome'', question = JString ''How are you?'', followups = JArray [] \<rparr>,
      \<lparr> title = JString ''Step 2'', question = JString ''Why us?'', followups = JArray [JString ''Since when?''] \<rparr>]"

definition two_items :: "json list" where
  "two_items =
     [JObject [(''title'', JString ''Welcome''), (''question'', JString ''How are you?'')],
      JObject [(''question'', JString ''Why us?''), (''followups'', JArray [JString ''Since when?''])]]"

definition tagged_fence :: "string \<Rightarrow> string" where
  "tagged_fence body = ''```json'' @ [CHR 0x0A] @ body @ [CHR 0x0A] @ ''```''"

definition plain_fence :: "string \<Rightarrow> string" where
  "plain_fence body = ''```'' @ [CHR 0x0A] @ body @ [CHR 0x0A] @ ''```''"

text \<open>
  A session of two steps in which \<open>stop()\<close> is called while the first step is
  processed, and one in which sending the closing message raises.
\<close>

definition cancelled_world :: world where
  "cancelled_world = demo_world two_step_plan no_fault (at_boundary 1)"

definition chat_fault_world :: world where
  "chat_fault_world = demo_world two_step_plan (fault_at SendChat (ExternalError ''chat panel missing'')) never"

definition keyed_settings :: InterviewSettings where
  "keyed_settings = demo_settings (Some ''sk-1'')"
section \<open>The ledger on disk\<close>

lemma entries_appends:
  "entries (appends tm calls) = entries tm @ map (\<lambda>(s, t). render_line s t) calls"
  by (induction calls arbitrary: tm) (auto simp: append_tm_def Let_def)

lemma write_count_appends:
  "write_count (appends tm calls) = write_count tm + length calls"
  by (induction calls arbitrary: tm) (auto simp: append_tm_def Let_def)

lemma file_content_appends:
  "calls \<noteq> [] \<Longrightarrow> file_content (appends tm calls) = Some (join [CHR 0x0A] (entries (appends tm calls)))"
proof (induction calls arbitrary: tm)
  case Nil
  then show ?case by simp
next
  case (Cons c calls)
  obtain s t where c: "c = (s, t)" by (cases c)
  show ?case
  proof (cases "calls = []")
    case True
    then show ?thesis by (simp add: c append_tm_def Let_def)
  next
    case False
    then show ?thesis using Cons.IH [of "append_tm tm s t"] by (simp add: c)
  qed
qed


text \<open>
  Claim C5. After any non-empty sequence of \<open>append\<close> calls on a new ledger, the file at
  the transcript path holds the lines \<open>speaker: trimmed text\<close> of all the calls, in call
  order, joined by newlines; the file was written once per call, each time with the
  whole list of entries.
\<close>

theorem ledger_file_after_appends:
  assumes "calls \<noteq> []"
  shows "file_content (appends (new_transcript w) calls)
           = Some (join [CHR 0x0A] (map (\<lambda>(speaker, text). speaker @ '': '' @ strip text) calls))
       \<and> write_count (appends (new_transcript w) calls) = length calls
       \<and> (\<forall>tm speaker text. file_content (append_tm tm speaker text)
             = Some (join [CHR 0x0A] (entries tm @ [speaker @ '': '' @ strip text])))"
proof -
  have "entries (appends (new_transcript w) calls)
          = map (\<lambda>(speaker, text). speaker @ '': '' @ strip text) calls"
    by (simp add: entries_appends new_transcript_def render_line_def)
  then have "file_content (appends (new_transcript w) calls)
           = Some (join [CHR 0x0A] (map (\<lambda>(speaker, text). speaker @ '': '' @ strip text) calls))"
    using file_content_appends [OF assms, of "new_transcript w"] by simp
  moreover have "write_count (appends (new_transcript w) calls) = length calls"
    by (simp add: write_count_appends new_transcript_def)
  moreover have "\<forall>tm speaker text. file_content (append_tm tm speaker text)
             = Some (join [CHR 0x0A] (entries tm @ [speaker @ '': '' @ strip text]))"
    by (simp add: append_tm_def Let_def render_line_def)
  ultimately show ?thesis by blast
qed

theorem ledger_file_after_appends_witness:
  "[(''AI'', '' Hello ''), (''Bob'', ''Hi there'')] \<noteq> []
   \<and> file_content (appends (new_transcript False) [(''AI'', '' Hello ''), (''Bob'', ''Hi there'')])
       = Some (''AI: Hello'' @ [CHR 0x0A] @ ''Bob: Hi there'')
   \<and> write_count (appends (new_transcript False) [(''AI'', '' Hello ''), (''Bob'', ''Hi there'')]) = 2"
  using ledger_file_after_appends [of "[(''AI'', '' Hello ''), (''Bob'', ''Hi there'')]" False, THEN conjunct1]
    ledger_file_after_appends [of "[(''AI'', '' Hello ''), (''Bob'', ''Hi there'')]" False, THEN conjunct2, THEN conjunct1]
  by (simp add: strip_def is_space_def whitespace_def)

section \<open>The flow planner\<close>

subsection \<open>Iterating over a built plan\<close>

lemma next_steps_exhausted:
  "length (steps flow) \<le> current_index flow \<Longrightarrow> next_steps m flow = (replicate m None, flow)"
  by (induction m arbitrary: flow) (auto simp: next_step_def)

lemma next_steps_upto:
  "current_index flow + n \<le> length (steps flow) \<Longrightarrow>
   next_steps n flow =
     (map Some (take n (drop (current_index flow) (steps flow))),
      flow\<lparr> current_index := current_index flow + n \<rparr>)"
proof (induction n arbitrary: flow)
  case 0
  then show ?case by simp
next
  case (Suc n)
  let ?f = "flow\<lparr> current_index := current_index flow + 1 \<rparr>"
  from Suc.prems have lt: "current_index flow < length (steps flow)" by simp
  have ih: "next_steps n ?f =
     (map Some (take n (drop (current_index ?f) (steps ?f))),
      ?f\<lparr> current_index := current_index ?f + n \<rparr>)"
    using Suc.prems by (intro Suc.IH) simp
  have hd: "take (Suc n) (drop (current_index flow) (steps flow))
        = steps flow ! current_index flow # take n (drop (Suc (current_index flow)) (steps flow))"
    using lt by (simp add: Cons_nth_drop_Suc [symmetric])
  show ?case using lt ih hd by (simp add: next_step_def)
qed

lemma next_steps_add:
  "next_steps (n + m) flow =
     (fst (next_steps n flow) @ fst (next_steps m (snd (next_steps n flow))),
      snd (next_steps m (snd (next_steps n flow))))"
  by (induction n arbitrary: flow) (auto simp: Let_def split: prod.splits)

lemma store_steps_ok:
  "store_steps flow data = (Inr ss, flow') \<Longrightarrow> flow' = flow\<lparr> steps := ss, current_index := 0 \<rparr>"
  by (auto simp: store_steps_def split: sum.splits)

lemma parse_plan_ok:
  "parse_plan loads flow raw = (Inr ss, flow') \<Longrightarrow> flow' = flow\<lparr> steps := ss, current_index := 0 \<rparr>"
  by (auto simp: parse_plan_def split: option.splits if_splits dest: store_steps_ok)

lemma build_ok:
  "build be loads flow = (Inr ss, flow') \<Longrightarrow> flow' = flow\<lparr> steps := ss, current_index := 0 \<rparr>"
  by (auto simp: build_def split: sum.splits dest: parse_plan_ok)

lemma build_two_step_plan:
  "build (canned two_step_plan []) json_loads demo_flow
     = (Inr two_steps, demo_flow\<lparr> steps := two_steps, current_index := 0 \<rparr>)"
  by code_simp

text \<open>
  Claim C10. After a successful \<open>build\<close> of \<open>N\<close> steps, on a flow in any state (also one
  that was built and iterated before), the stored steps are the built ones and the
  cursor is at 0; \<open>N\<close> calls of \<open>next_step\<close> return the steps in index order, and every
  further call returns \<open>None\<close> and leaves the flow as it is.
\<close>

theorem next_step_after_build:
  assumes "build be loads flow = (Inr ss, flow')"
  shows "steps flow' = ss \<and> current_index flow' = 0
       \<and> next_steps (length ss) flow' = (map Some ss, flow'\<lparr> current_index := length ss \<rparr>)
       \<and> (\<forall>m. next_steps (length ss + m) flow'
               = (map Some ss @ replicate m None, flow'\<lparr> current_index := length ss \<rparr>))"
proof -
  from build_ok [OF assms] have f: "flow' = flow\<lparr> steps := ss, current_index := 0 \<rparr>" .
  then have s: "steps flow' = ss" and c: "current_index flow' = 0" by simp_all
  have n: "next_steps (length ss) flow' = (map Some ss, flow'\<lparr> current_index := length ss \<rparr>)"
    using next_steps_upto [of flow' "length ss"] s c by simp
  have "next_steps (length ss + m) flow'
               = (map Some ss @ replicate m None, flow'\<lparr> current_index := length ss \<rparr>)" for m
    using next_steps_add [of "length ss" m flow'] n
      next_steps_exhausted [of "flow'\<lparr> current_index := length ss \<rparr>" m] s
    by simp
  with s c n show ?thesis by blast
qed

theorem next_step_after_build_witness:
  "build (canned two_step_plan []) json_loads demo_flow
     = (Inr two_steps, demo_flow\<lparr> steps := two_steps, current_index := 0 \<rparr>)
   \<and> next_steps (length two_steps) (demo_flow\<lparr> steps := two_steps, current_index := 0 \<rparr>)
     = (map Some two_steps, demo_flow\<lparr> steps := two_steps, current_index := length two_steps \<rparr>)"
  using next_step_after_build [OF build_two_step_plan] build_two_step_plan by simp

subsection \<open>The size of a built plan\<close>

lemma steps_from_length: "steps_from idx items = Inr ss \<Longrightarrow> length ss = length items"
  by (induction items arbitrary: idx ss) (auto split: sum.splits)

lemma store_steps_array:
  "store_steps flow (JArray items) = (Inr ss, flow') \<Longrightarrow> steps_from 0 items = Inr ss"
  by (auto simp: store_steps_def steps_of_data_def split: sum.splits)

text \<open>
  Claim C8, as stated: a successful \<open>build\<close> gives a non-empty plan. The response \<open>[]\<close>
  decodes to the empty array; \<open>build\<close> returns it as the empty plan.
\<close>

theorem build_empty_plan:
  "build (canned ''[]'' []) json_loads demo_flow
     = (Inr [], demo_flow\<lparr> steps := [], current_index := 0 \<rparr>)"
  by code_simp

text \<open>
  Claim C8, amended. When \<open>build\<close> returns successfully on a response that decodes
  (directly, or through its fenced segment) to a plan array, the plan has one step per
  item of the array, built from the items in order; it is empty exactly when the array
  is empty.
\<close>

theorem build_one_step_per_item:
  assumes "generate be (flow_llm flow) (build_prompt flow) None 1024 = Inr raw"
    and "loads raw = Some (JArray items)
         \<or> (loads raw = None \<and> extract_json_block raw = Some cleaned \<and> loads cleaned = Some (JArray items))"
    and "build be loads flow = (Inr ss, flow')"
  shows "steps_from 0 items = Inr ss \<and> length ss = length items \<and> (ss = [] \<longleftrightarrow> items = [])"
proof -
  have "store_steps flow (JArray items) = (Inr ss, flow')"
    using assms by (auto simp: build_def parse_plan_def split: if_splits)
  then have "steps_from 0 items = Inr ss" by (rule store_steps_array)
  moreover from this have "length ss = length items" by (rule steps_from_length)
  ultimately show ?thesis by auto
qed

lemma generate_two_step_plan:
  "generate (canned two_step_plan []) (flow_llm demo_flow) (build_prompt demo_flow) None 1024 = Inr two_step_plan"
  by code_simp

lemma loads_two_step_plan: "json_loads two_step_plan = Some (JArray two_items)"
  by code_simp

theorem build_one_step_per_item_witness:
  "generate (canned two_step_plan []) (flow_llm demo_flow) (build_prompt demo_flow) None 1024 = Inr two_step_plan
   \<and> json_loads two_step_plan = Some (JArray two_items)
   \<and> build (canned two_step_plan []) json_loads demo_flow
       = (Inr two_steps, demo_flow\<lparr> steps := two_steps, current_index := 0 \<rparr>)
   \<and> steps_from 0 two_items = Inr two_steps \<and> length two_steps = length two_items"
  using build_one_step_per_item [OF generate_two_step_plan disjI1 [OF loads_two_step_plan] build_two_step_plan]
    generate_two_step_plan loads_two_step_plan build_two_step_plan
  by simp

subsection \<open>Fenced responses\<close>

text \<open>
  Claim C3. A plan array wrapped in a fence with a language tag is not extracted: the
  part between the fences begins with the tag, not with the bracket, so no part is
  selected and \<open>build\<close> raises, whereas the same array unwrapped, or wrapped in a fence
  without a tag, gives the plan.
\<close>

theorem build_tagged_fence:
  "build (canned (tagged_fence two_step_plan) []) json_loads demo_flow
     = (Inl (LLMClientError ''Failed to parse interview plan from the language model response''), demo_flow)
   \<and> build (canned two_step_plan []) json_loads demo_flow
     = (Inr two_steps, demo_flow\<lparr> steps := two_steps, current_index := 0 \<rparr>)
   \<and> build (canned (plain_fence two_step_plan) []) json_loads demo_flow
     = (Inr two_steps, demo_flow\<lparr> steps := two_steps, current_index := 0 \<rparr>)"
  by code_simp

section \<open>The audio bridge\<close>

lemma recorder_stop_fresh: "recorder_stop ft new_recorder = (None, new_recorder)"
  by (simp add: recorder_stop_def join_writer_def new_recorder_def)

lemma recorder_stop_stopped:
  "recorder_stop ft r = (None, r') \<Longrightarrow> \<not> running r' \<and> \<not> stream_set r'"
  by (auto simp: recorder_stop_def join_writer_def Let_def split: if_splits option.splits)

lemma recorder_stop_again:
  "recorder_stop ft r = (None, r') \<Longrightarrow> recorder_stop ft' r' = (None, r')"
  by (auto simp: recorder_stop_def join_writer_def Let_def split: if_splits option.splits)

lemma recorder_stop_returns:
  "\<not> stream_set r \<or> (ft StreamStop = None \<and> ft StreamClose = None) \<Longrightarrow> fst (recorder_stop ft r) = None"
  by (auto simp: recorder_stop_def Let_def)

lemma recorder_stop_raises:
  "recorder_stop ft r = (Some e, r') \<Longrightarrow>
   stream_set r \<and> stream_set r' \<and> \<not> running r' \<and> (ft StreamStop = Some e \<or> ft StreamClose = Some e)"
  by (auto simp: recorder_stop_def Let_def split: if_splits option.splits)

lemma bridge_started:
  "bridge_start no_fault new_recorder
     = (None, \<lparr> running = True, writer_set = True, stream_set = True, thread_set = True \<rparr>)"
  by (simp add: bridge_start_def recorder_start_def no_fault_def new_recorder_def)

lemma bridge_stopped:
  "bridge_stop no_fault \<lparr> running = True, writer_set = True, stream_set = True, thread_set = True \<rparr>
     = (None, \<lparr> running = False, writer_set = False, stream_set = False, thread_set = True \<rparr>)"
  by (simp add: bridge_stop_def recorder_stop_def join_writer_def no_fault_def)

text \<open>
  Claim C9, as stated: \<open>AudioBridge.stop\<close> never raises. On a recorder that was
  started, a \<open>stop\<close> during which stopping the stream raises passes that exception
  on. It has cleared the event but left the stream in its field, so the next \<open>stop\<close>
  stops the stream again and raises again.
\<close>

theorem bridge_stop_raises:
  "bridge_start no_fault new_recorder
     = (None, \<lparr> running = True, writer_set = True, stream_set = True, thread_set = True \<rparr>)
   \<and> bridge_stop (fault_at StreamStop (ExternalError ''device lost''))
        \<lparr> running = True, writer_set = True, stream_set = True, thread_set = True \<rparr>
     = (Some (ExternalError ''device lost''),
        \<lparr> running = False, writer_set = True, stream_set = True, thread_set = True \<rparr>)
   \<and> bridge_stop (fault_at StreamStop (ExternalError ''device lost''))
        \<lparr> running = False, writer_set = True, stream_set = True, thread_set = True \<rparr>
     = (Some (ExternalError ''device lost''),
        \<lparr> running = False, writer_set = True, stream_set = True, thread_set = True \<rparr>)"
  by (simp add: bridge_start_def recorder_start_def bridge_stop_def recorder_stop_def
        no_fault_def fault_at_def new_recorder_def)

text \<open>
  Claim C9, amended. \<open>AudioBridge.stop\<close> on a recorder that was never started returns
  and leaves it as it is, whatever the audio device would do. After a \<open>stop\<close> that
  returned, the recorder is stopped (event cleared, no stream), and every further
  \<open>stop\<close> returns and leaves it in that same state. \<open>stop\<close> returns whenever the
  recorder holds no stream or stopping and closing the stream return. It has no
  exception of its own: when it raises, the recorder held a stream, the exception is
  the one of stopping or closing that stream, the event is cleared and the stream is
  still in its field.
\<close>

theorem bridge_stop_idempotent:
  "bridge_stop ft new_recorder = (None, new_recorder)
   \<and> (\<forall>r r' ft'. bridge_stop ft r = (None, r') \<longrightarrow>
         \<not> running r' \<and> \<not> stream_set r' \<and> bridge_stop ft' r' = (None, r'))
   \<and> (\<forall>r. \<not> stream_set r \<or> (ft StreamStop = None \<and> ft StreamClose = None) \<longrightarrow>
         fst (bridge_stop ft r) = None)
   \<and> (\<forall>r e r'. bridge_stop ft r = (Some e, r') \<longrightarrow>
         stream_set r \<and> stream_set r' \<and> \<not> running r'
         \<and> (ft StreamStop = Some e \<or> ft StreamClose = Some e))"
proof -
  have a: "bridge_stop ft new_recorder = (None, new_recorder)"
    by (simp add: bridge_stop_def recorder_stop_fresh)
  have b: "\<not> running r' \<and> \<not> stream_set r' \<and> bridge_stop ft' r' = (None, r')"
    if "bridge_stop ft r = (None, r')" for r r' ft'
    using that recorder_stop_stopped [of ft r r'] recorder_stop_again [of ft r r' ft']
    by (simp add: bridge_stop_def)
  have c: "fst (bridge_stop ft r) = None"
    if "\<not> stream_set r \<or> (ft StreamStop = None \<and> ft StreamClose = None)" for r
    using recorder_stop_returns [OF that] by (simp add: bridge_stop_def)
  have d: "stream_set r \<and> stream_set r' \<and> \<not> running r'
         \<and> (ft StreamStop = Some e \<or> ft StreamClose = Some e)"
    if "bridge_stop ft r = (Some e, r')" for r e r'
    using that recorder_stop_raises [of ft r e r'] by (simp add: bridge_stop_def)
  from a b c d show ?thesis by blast
qed

theorem bridge_stop_idempotent_witness:
  "bridge_stop no_fault \<lparr> running = True, writer_set = True, stream_set = True, thread_set = True \<rparr>
     = (None, \<lparr> running = False, writer_set = False, stream_set = False, thread_set = True \<rparr>)
   \<and> bridge_stop (fault_at StreamStop (ExternalError ''device lost''))
        \<lparr> running = False, writer_set = False, stream_set = False, thread_set = True \<rparr>
     = (None, \<lparr> running = False, writer_set = False, stream_set = False, thread_set = True \<rparr>)"
  using bridge_stop_idempotent [of no_fault, THEN conjunct2, THEN conjunct1, rule_format, OF bridge_stopped,
          of "fault_at StreamStop (ExternalError ''device lost'')"] bridge_stopped
  by simp

section \<open>The run of the controller\<close>

subsection \<open>A missing credential\<close>

lemma generate_without_key:
  assumes "api_key config = None \<or> api_key config = Some []"
  shows "\<exists>m. generate be config prompt sp n = Inl (LLMClientError m)"
  using assms
  by (auto simp: generate_def Let_def generate_openai_def generate_anthropic_def generate_google_def
        require_api_key_def)

lemma build_without_key:
  assumes "api_key (flow_llm flow) = None \<or> api_key (flow_llm flow) = Some []"
  shows "\<exists>m. generate be (flow_llm flow) (build_prompt flow) None 1024 = Inl (LLMClientError m)
           \<and> build be loads flow = (Inl (LLMClientError m), flow)"
proof -
  from generate_without_key [OF assms] obtain m
    where "generate be (flow_llm flow) (build_prompt flow) None 1024 = Inl (LLMClientError m)" by blast
  then show ?thesis by (auto simp: build_def)
qed

lemma prepare_without_key:
  assumes "api_key (llm settings) = None \<or> api_key (llm settings) = Some []"
  shows "\<exists>e. fst (prepare w settings st) = Inl e"
    and "trace (snd (prepare w settings st)) =
           trace st @ [Status (''Parsing CV document'' @ ellipsis), Call ExtractText]
           @ (if fault w ExtractText = None
              then [Status (''Generating interview flow with LLM'' @ ellipsis),
                    Generate (build_prompt (new_flow (llm settings) (document w) (interview_outline settings) (warmup_prompt settings)))]
              else [])"
    and "fault w ExtractText = None \<Longrightarrow>
           \<exists>m. generate (llm_backend w) (llm settings)
                   (build_prompt (new_flow (llm settings) (document w) (interview_outline settings) (warmup_prompt settings)))
                   None 1024 = Inl (LLMClientError m)
               \<and> fst (prepare w settings st) = Inl (LLMClientError m)"
proof -
  let ?flow = "new_flow (llm settings) (document w) (interview_outline settings) (warmup_prompt settings)"
  have k: "api_key (flow_llm ?flow) = None \<or> api_key (flow_llm ?flow) = Some []"
    using assms by (simp add: new_flow_def)
  from build_without_key [OF k, of "llm_backend w" "decoder w"] obtain m
    where g: "generate (llm_backend w) (flow_llm ?flow) (build_prompt ?flow) None 1024 = Inl (LLMClientError m)"
      and b: "build (llm_backend w) (decoder w) ?flow = (Inl (LLMClientError m), ?flow)" by blast
  have fl: "flow_llm ?flow = llm settings" by (simp add: new_flow_def)
  show "\<exists>e. fst (prepare w settings st) = Inl e"
    using b by (auto simp: prepare_def call_def Let_def split: option.splits)
  show "trace (snd (prepare w settings st)) =
           trace st @ [Status (''Parsing CV document'' @ ellipsis), Call ExtractText]
           @ (if fault w ExtractText = None
              then [Status (''Generating interview flow with LLM'' @ ellipsis), Generate (build_prompt ?flow)]
              else [])"
    by (auto simp: prepare_def call_def emit_def Let_def split: option.splits)
  show "\<exists>m. generate (llm_backend w) (llm settings) (build_prompt ?flow) None 1024 = Inl (LLMClientError m)
               \<and> fst (prepare w settings st) = Inl (LLMClientError m)" if "fault w ExtractText = None"
    using that b g fl by (auto simp: prepare_def call_def Let_def)
qed

lemma async_run_prepare_fails:
  "fst (prepare w settings (start_session w)) = Inl e \<Longrightarrow>
   async_run w settings = (Some e, snd (prepare w settings (start_session w)))"
  by (cases "prepare w settings (start_session w)") (auto simp: async_run_def conduct_def)

text \<open>
  Claim C7. With an empty or missing credential the run ends with an exception, and
  neither the connection to the meeting nor the start of the audio bridge is attempted.
  When the CV extractor returns, the exception is the \<open>LLMClientError\<close> that the
  generation call of \<open>build\<close> raises, and that call is the last thing the run does.
\<close>

theorem missing_credential_fails_fast:
  assumes "api_key (llm settings) = None \<or> api_key (llm settings) = Some []"
  shows "fst (async_run w settings) \<noteq> None
       \<and> Call MeetEnter \<notin> set (trace (snd (async_run w settings)))
       \<and> BridgeStart \<notin> set (trace (snd (async_run w settings)))
       \<and> (fault w ExtractText = None \<longrightarrow>
            (\<exists>m. generate (llm_backend w) (llm settings)
                    (build_prompt (new_flow (llm settings) (document w) (interview_outline settings) (warmup_prompt settings)))
                    None 1024 = Inl (LLMClientError m)
                \<and> fst (async_run w settings) = Some (LLMClientError m))
            \<and> trace (snd (async_run w settings)) =
                [Status (''Parsing CV document'' @ ellipsis), Call ExtractText,
                 Status (''Generating interview flow with LLM'' @ ellipsis),
                 Generate (build_prompt (new_flow (llm settings) (document w) (interview_outline settings) (warmup_prompt settings)))])"
proof -
  let ?p = "prepare w settings (start_session w)"
  from prepare_without_key(1) [OF assms, of w "start_session w"] obtain e where e: "fst ?p = Inl e" by blast
  then have run: "async_run w settings = (Some e, snd ?p)" by (rule async_run_prepare_fails)
  have tr: "trace (snd (async_run w settings)) =
           [Status (''Parsing CV document'' @ ellipsis), Call ExtractText]
           @ (if fault w ExtractText = None
              then [Status (''Generating interview flow with LLM'' @ ellipsis),
                    Generate (build_prompt (new_flow (llm settings) (document w) (interview_outline settings) (warmup_prompt settings)))]
              else [])"
    using prepare_without_key(2) [OF assms, of w "start_session w"] run by (simp add: start_session_def)
  have a: "fst (async_run w settings) \<noteq> None" using run by simp
  have b: "Call MeetEnter \<notin> set (trace (snd (async_run w settings)))" unfolding tr by simp
  have c: "BridgeStart \<notin> set (trace (snd (async_run w settings)))" unfolding tr by simp
  have d: "(\<exists>m. generate (llm_backend w) (llm settings)
                    (build_prompt (new_flow (llm settings) (document w) (interview_outline settings) (warmup_prompt settings)))
                    None 1024 = Inl (LLMClientError m)
                \<and> fst (async_run w settings) = Some (LLMClientError m))
            \<and> trace (snd (async_run w settings)) =
                [Status (''Parsing CV document'' @ ellipsis), Call ExtractText,
                 Status (''Generating interview flow with LLM'' @ ellipsis),
                 Generate (build_prompt (new_flow (llm settings) (document w) (interview_outline settings) (warmup_prompt settings)))]"
    if f: "fault w ExtractText = None"
  proof -
    from prepare_without_key(3) [OF assms f, of "start_session w"] e run
    have "\<exists>m. generate (llm_backend w) (llm settings)
                    (build_prompt (new_flow (llm settings) (document w) (interview_outline settings) (warmup_prompt settings)))
                    None 1024 = Inl (LLMClientError m)
                \<and> fst (async_run w settings) = Some (LLMClientError m)" by auto
    moreover have "trace (snd (async_run w settings)) =
                [Status (''Parsing CV document'' @ ellipsis), Call ExtractText,
                 Status (''Generating interview flow with LLM'' @ ellipsis),
                 Generate (build_prompt (new_flow (llm settings) (document w) (interview_outline settings) (warmup_prompt settings)))]"
      using tr f by simp
    ultimately show ?thesis by blast
  qed
  from a b c d show ?thesis by blast
qed

lemma demo_no_key: "api_key (llm (demo_settings None)) = None \<or> api_key (llm (demo_settings None)) = Some []"
  by (simp add: demo_settings_def demo_config_def)

theorem missing_credential_fails_fast_witness:
  "(api_key (llm (demo_settings None)) = None \<or> api_key (llm (demo_settings None)) = Some [])
   \<and> fault (demo_world two_step_plan no_fault never) ExtractText = None
   \<and> fst (async_run (demo_world two_step_plan no_fault never) (demo_settings None))
       = Some (LLMClientError (''An API key is required for provider '' @ [CHR 0x27] @ ''openai'' @ [CHR 0x27] @ ''.''))
   \<and> Call MeetEnter \<notin> set (trace (snd (async_run (demo_world two_step_plan no_fault never) (demo_settings None))))"
proof -
  have f: "fault (demo_world two_step_plan no_fault never) ExtractText = None"
    by (simp add: demo_world_def no_fault_def)
  have r: "fst (async_run (demo_world two_step_plan no_fault never) (demo_settings None))
       = Some (LLMClientError (''An API key is required for provider '' @ [CHR 0x27] @ ''openai'' @ [CHR 0x27] @ ''.''))"
    by code_simp
  from missing_credential_fails_fast [OF demo_no_key, of "demo_world two_step_plan no_fault never"]
  have "Call MeetEnter \<notin> set (trace (snd (async_run (demo_world two_step_plan no_fault never) (demo_settings None))))"
    by blast
  with demo_no_key f r show ?thesis by blast
qed


subsection \<open>What the parts of a run change\<close>

lemma asked_append: "asked (xs @ ys) = asked xs @ asked ys"
  by (induction xs rule: asked.induct) simp_all

lemma statuses_append: "statuses (xs @ ys) = statuses xs @ statuses ys"
  by (induction xs rule: statuses.induct) simp_all



lemma ledger_append_frame:
  "stop_event (snd (ledger_append w speaker text st)) = stop_event st"
  "recorder (snd (ledger_append w speaker text st)) = recorder st"
  "has_whisper (transcript (snd (ledger_append w speaker text st))) = has_whisper (transcript st)"
  "trace (snd (ledger_append w speaker text st))
     = trace st @ [Call (LedgerWrite (length (entries (transcript st))))]"
  by (simp_all add: ledger_append_def append_io_def append_tm_def emit_def Let_def split: option.splits prod.splits)


lemma annotate_frame:
  "stop_event (snd (annotate w name follows st)) = stop_event st
   \<and> recorder (snd (annotate w name follows st)) = recorder st
   \<and> has_whisper (transcript (snd (annotate w name follows st))) = has_whisper (transcript st)
   \<and> asked (trace (snd (annotate w name follows st))) = asked (trace st)
   \<and> statuses (trace (snd (annotate w name follows st))) = statuses (trace st)"
proof (induction follows arbitrary: st)
  case Nil
  then show ?case by simp
next
  case (Cons follow follows)
  obtain r st1 where l: "ledger_append w name (format_follow w follow) st = (r, st1)" by (cases "ledger_append w name (format_follow w follow) st")
  have f: "stop_event st1 = stop_event st" "recorder st1 = recorder st"
    "has_whisper (transcript st1) = has_whisper (transcript st)"
    "asked (trace st1) = asked (trace st)" "statuses (trace st1) = statuses (trace st)"
    using ledger_append_frame [of w name "format_follow w follow" st] l by (simp_all add: asked_append statuses_append)
  show ?case
  proof (cases r)
    case None
    then show ?thesis using l f Cons.IH [of st1] by simp
  next
    case (Some e)
    then show ?thesis using l f by simp
  qed
qed

lemma call_simps:
  "fst (call w s st) = fault w s"
  "trace (snd (call w s st)) = trace st @ [Call s]"
  "transcript (snd (call w s st)) = transcript st"
  "recorder (snd (call w s st)) = recorder st"
  "stop_event (snd (call w s st)) = stop_event st"
  by (simp_all add: call_def emit_def)

lemma emit_simps:
  "trace (emit e st) = trace st @ [e]"
  "transcript (emit e st) = transcript st"
  "recorder (emit e st) = recorder st"
  "stop_event (emit e st) = stop_event st"
  by (simp_all add: emit_def)

lemma process_step_frame:
  "stop_event (snd (process_step w name i step st)) = stop_event st
   \<and> recorder (snd (process_step w name i step st)) = recorder st
   \<and> has_whisper (transcript (snd (process_step w name i step st))) = has_whisper (transcript st)"
proof (cases "question step")
  case (JString prompt)
  obtain r1 st1 where l: "ledger_append w name prompt st = (r1, st1)" by (cases "ledger_append w name prompt st")
  have f1: "stop_event st1 = stop_event st" "recorder st1 = recorder st"
    "has_whisper (transcript st1) = has_whisper (transcript st)"
    using ledger_append_frame [of w name prompt st] l by simp_all
  let ?st2 = "emit (Transcript (join [CHR 0x0A] (entries (transcript st1)))) st1"
  let ?st3 = "emit (Call (TtsSpeak i)) ?st2"
  show ?thesis
  proof (cases "r1 = None \<and> fault w (TtsSpeak i) = None \<and> (\<exists>follows. iterate (followups step) = Inr follows)")
    case False
    then show ?thesis using JString l f1
      by (auto simp: process_step_def call_def emit_simps Let_def split: option.splits sum.splits)
  next
    case True
    then obtain follows where it: "iterate (followups step) = Inr follows" by blast
    obtain r4 st4 where a: "annotate w name follows ?st3 = (r4, st4)" by (cases "annotate w name follows ?st3")
    have f4: "stop_event st4 = stop_event st" "recorder st4 = recorder st"
      "has_whisper (transcript st4) = has_whisper (transcript st)"
      using annotate_frame [of w name follows ?st3] a f1 by (simp_all add: emit_simps)
    show ?thesis using JString l True it a f4
      by (auto simp: process_step_def call_def emit_simps Let_def split: option.splits)
  qed
qed (simp_all add: process_step_def)


lemma interview_frame:
  "recorder (snd (interview w name i plan st)) = recorder st
   \<and> has_whisper (transcript (snd (interview w name i plan st))) = has_whisper (transcript st)
   \<and> (stop_event st \<longrightarrow> stop_event (snd (interview w name i plan st)))"
proof (induction plan arbitrary: i st)
  case Nil
  then show ?case by simp
next
  case (Cons step rest)
  let ?st0 = "st\<lparr> stop_event := stop_event st \<or> stop_called w i \<rparr>"
  obtain r st1 where p: "process_step w name i step ?st0 = (r, st1)" by (cases "process_step w name i step ?st0")
  have f: "stop_event st1 = stop_event ?st0" "recorder st1 = recorder st"
    "has_whisper (transcript st1) = has_whisper (transcript st)"
    using process_step_frame [of w name i step ?st0] p by simp_all
  show ?case
  proof (cases "stop_event ?st0")
    case True
    then show ?thesis by (simp add: Let_def)
  next
    case False
    show ?thesis
    proof (cases r)
      case None
      then show ?thesis using False p f Cons.IH [of "Suc i" st1] by (simp add: Let_def)
    next
      case (Some e)
      then show ?thesis using False p f by (simp add: Let_def)
    qed
  qed
qed


lemma interview_truncated:
  assumes "stop_called w j" and "i \<le> j" and "j \<le> i + n"
  shows "fst (interview w name i plan st) = fst (interview w name i (take n plan) st)
       \<and> trace (snd (interview w name i plan st)) = trace (snd (interview w name i (take n plan) st))
       \<and> transcript (snd (interview w name i plan st)) = transcript (snd (interview w name i (take n plan) st))
       \<and> recorder (snd (interview w name i plan st)) = recorder (snd (interview w name i (take n plan) st))"
  using assms
proof (induction plan arbitrary: i n st)
  case Nil
  then show ?case by simp
next
  case (Cons step rest)
  let ?st0 = "st\<lparr> stop_event := stop_event st \<or> stop_called w i \<rparr>"
  show ?case
  proof (cases n)
    case 0
    with Cons.prems have "j = i" by simp
    with Cons.prems(1) have "stop_event ?st0" by simp
    then show ?thesis using 0 by (simp add: Let_def)
  next
    case (Suc n')
    show ?thesis
    proof (cases "stop_event ?st0")
      case True
      then show ?thesis using Suc by (simp add: Let_def)
    next
      case False
      then have "\<not> stop_called w i" by simp
      with Cons.prems(1,2) have le: "Suc i \<le> j" by (cases "j = i") auto
      from Cons.prems(3) Suc have le': "j \<le> Suc i + n'" by simp
      obtain r st1 where p: "process_step w name i step ?st0 = (r, st1)" by (cases "process_step w name i step ?st0")
      show ?thesis
      proof (cases r)
        case None
        then show ?thesis using False p Suc Cons.IH [OF Cons.prems(1) le le', of st1] by (simp add: Let_def)
      next
        case (Some e)
        then show ?thesis using False p Suc by (simp add: Let_def)
      qed
    qed
  qed
qed

lemma interview_cancelled:
  assumes "stop_called w j" and "i \<le> j" and "j < i + length plan"
  shows "fst (interview w name i plan st) \<noteq> None \<or> stop_event (snd (interview w name i plan st))"
  using assms
proof (induction plan arbitrary: i st)
  case Nil
  then show ?case by simp
next
  case (Cons step rest)
  let ?st0 = "st\<lparr> stop_event := stop_event st \<or> stop_called w i \<rparr>"
  show ?case
  proof (cases "stop_event ?st0")
    case True
    then show ?thesis by (simp add: Let_def)
  next
    case False
    then have "\<not> stop_called w i" by simp
    with Cons.prems(1,2) have le: "Suc i \<le> j" by (cases "j = i") auto
    from Cons.prems(3) have lt: "j < Suc i + length rest" by simp
    obtain r st1 where p: "process_step w name i step ?st0 = (r, st1)" by (cases "process_step w name i step ?st0")
    show ?thesis
    proof (cases r)
      case None
      then show ?thesis using False p Cons.IH [OF Cons.prems(1) le lt, of st1] by (simp add: Let_def)
    next
      case (Some e)
      then show ?thesis using False p by (simp add: Let_def)
    qed
  qed
qed

lemma farewell_simps:
  "fst (farewell w st) = (case fault w SendChat of Some e \<Rightarrow> Some e | None \<Rightarrow> fault w MeetLeave)"
  "transcript (snd (farewell w st)) = transcript st"
  "recorder (snd (farewell w st)) = recorder st"
  "stop_event (snd (farewell w st)) = stop_event st"
  "asked (trace (snd (farewell w st))) = asked (trace st)"
  by (simp_all add: farewell_def call_def emit_simps asked_append split: option.splits)

text \<open>The session in which the loop of \<open>meet_session\<close> starts.\<close>

lemma meet_session_entered:
  assumes "fault w MeetEnter = None"
    and "interview w (interviewer_name settings) 0 plan
           (emit (Status (''Connected to Google Meet. Beginning interview'' @ ellipsis)) (emit (Call MeetEnter) st))
         = (r, st3)"
  shows "fst (meet_session w settings plan st)
           = (case fault w MeetExit of
                Some e \<Rightarrow> Some e
              | None \<Rightarrow> (case r of Some e \<Rightarrow> Some e | None \<Rightarrow> fst (farewell w st3)))"
    and "transcript (snd (meet_session w settings plan st)) = transcript st3"
    and "stop_event (snd (meet_session w settings plan st)) = stop_event st3"
    and "recorder (snd (meet_session w settings plan st)) = recorder st3"
    and "asked (trace (snd (meet_session w settings plan st))) = asked (trace st3)"
proof -
  obtain rf stf where f: "farewell w st3 = (rf, stf)" by (cases "farewell w st3")
  have fs: "transcript stf = transcript st3" "recorder stf = recorder st3"
    "stop_event stf = stop_event st3" "asked (trace stf) = asked (trace st3)"
    using farewell_simps [of w st3] f by simp_all
  show "fst (meet_session w settings plan st)
           = (case fault w MeetExit of
                Some e \<Rightarrow> Some e
              | None \<Rightarrow> (case r of Some e \<Rightarrow> Some e | None \<Rightarrow> fst (farewell w st3)))"
    using assms f by (simp add: meet_session_def call_def Let_def split: option.splits)
  show "transcript (snd (meet_session w settings plan st)) = transcript st3"
    using assms f fs by (simp add: meet_session_def call_def emit_simps Let_def split: option.splits)
  show "stop_event (snd (meet_session w settings plan st)) = stop_event st3"
    using assms f fs by (simp add: meet_session_def call_def emit_simps Let_def split: option.splits)
  show "recorder (snd (meet_session w settings plan st)) = recorder st3"
    using assms f fs by (simp add: meet_session_def call_def emit_simps Let_def split: option.splits)
  show "asked (trace (snd (meet_session w settings plan st))) = asked (trace st3)"
    using assms f fs by (simp add: meet_session_def call_def emit_simps asked_append Let_def split: option.splits)
qed

lemma meet_session_refused:
  "fault w MeetEnter = Some e \<Longrightarrow> meet_session w settings plan st = (Some e, emit (Call MeetEnter) st)"
  by (simp add: meet_session_def call_def)

lemma meet_session_recorder: "recorder (snd (meet_session w settings plan st)) = recorder st"
proof (cases "fault w MeetEnter")
  case None
  let ?st2 = "emit (Status (''Connected to Google Meet. Beginning interview'' @ ellipsis)) (emit (Call MeetEnter) st)"
  obtain r st3 where i: "interview w (interviewer_name settings) 0 plan ?st2 = (r, st3)"
    by (cases "interview w (interviewer_name settings) 0 plan ?st2")
  have "recorder st3 = recorder st"
    using interview_frame [of w "interviewer_name settings" 0 plan ?st2] i by (simp add: emit_simps)
  with meet_session_entered(4) [OF None i] show ?thesis by simp
next
  case (Some e)
  then show ?thesis by (simp add: meet_session_refused emit_simps)
qed

lemma meet_session_farewell_fails:
  assumes "fault w SendChat \<noteq> None \<or> fault w MeetLeave \<noteq> None"
  shows "fst (meet_session w settings plan st) \<noteq> None"
proof (cases "fault w MeetEnter")
  case None
  let ?st2 = "emit (Status (''Connected to Google Meet. Beginning interview'' @ ellipsis)) (emit (Call MeetEnter) st)"
  obtain r st3 where i: "interview w (interviewer_name settings) 0 plan ?st2 = (r, st3)"
    by (cases "interview w (interviewer_name settings) 0 plan ?st2")
  have "fst (farewell w st3) \<noteq> None" using assms by (auto simp: farewell_simps split: option.splits)
  then show ?thesis unfolding meet_session_entered(1) [OF None i] by (auto split: option.splits)
next
  case (Some e)
  then show ?thesis by (simp add: meet_session_refused)
qed

lemma stop_bridge_simps:
  "fst (stop_bridge w st) = fst (bridge_stop (fault w) (recorder st))"
  "trace (snd (stop_bridge w st)) = trace st @ [BridgeStop]"
  "transcript (snd (stop_bridge w st)) = transcript st"
  "stop_event (snd (stop_bridge w st)) = stop_event st"
  by (simp_all add: stop_bridge_def emit_simps Let_def split: prod.splits)

lemma guarded_session_simps:
  "fst (guarded_session w settings plan st)
     = (case fst (stop_bridge w (snd (meet_session w settings plan st))) of
          Some e \<Rightarrow> Some e
        | None \<Rightarrow> fst (meet_session w settings plan st))"
  "trace (snd (guarded_session w settings plan st)) = trace (snd (meet_session w settings plan st)) @ [BridgeStop]"
  "transcript (snd (guarded_session w settings plan st)) = transcript (snd (meet_session w settings plan st))"
  "stop_event (snd (guarded_session w settings plan st)) = stop_event (snd (meet_session w settings plan st))"
proof -
  obtain r st1 where m: "meet_session w settings plan st = (r, st1)" by (cases "meet_session w settings plan st")
  obtain r' st2 where b: "stop_bridge w st1 = (r', st2)" by (cases "stop_bridge w st1")
  have g: "guarded_session w settings plan st = (case r' of Some e \<Rightarrow> (Some e, st2) | None \<Rightarrow> (r, st2))"
    using m b by (simp add: guarded_session_def)
  show "fst (guarded_session w settings plan st)
     = (case fst (stop_bridge w (snd (meet_session w settings plan st))) of
          Some e \<Rightarrow> Some e
        | None \<Rightarrow> fst (meet_session w settings plan st))"
    using g m b by (simp split: option.splits)
  show "trace (snd (guarded_session w settings plan st)) = trace (snd (meet_session w settings plan st)) @ [BridgeStop]"
    using g m b stop_bridge_simps(2) [of w st1] by (simp split: option.splits)
  show "transcript (snd (guarded_session w settings plan st)) = transcript (snd (meet_session w settings plan st))"
    using g m b stop_bridge_simps(3) [of w st1] by (simp split: option.splits)
  show "stop_event (snd (guarded_session w settings plan st)) = stop_event (snd (meet_session w settings plan st))"
    using g m b stop_bridge_simps(4) [of w st1] by (simp split: option.splits)
qed

lemma prepare_frame:
  "transcript (snd (prepare w settings st)) = transcript st"
  "recorder (snd (prepare w settings st)) = recorder st"
  "stop_event (snd (prepare w settings st)) = stop_event st"
  "asked (trace (snd (prepare w settings st))) = asked (trace st)"
  by (simp_all add: prepare_def call_def emit_simps asked_append Let_def split: option.splits)

lemma start_audio_frame:
  "transcript (snd (start_audio w st)) = transcript st"
  "stop_event (snd (start_audio w st)) = stop_event st"
  "asked (trace (snd (start_audio w st))) = asked (trace st)"
  by (simp_all add: start_audio_def call_def emit_simps asked_append Let_def split: option.splits prod.splits)

lemma recorder_start_done: "recorder_start ft r = (None, r') \<Longrightarrow> stream_set r'"
  by (auto simp: recorder_start_def Let_def split: option.splits)

lemma start_audio_done: "start_audio w st = (None, st') \<Longrightarrow> stream_set (recorder st')"
  by (auto simp: start_audio_def bridge_start_def call_def emit_simps Let_def
        split: option.splits prod.splits dest: recorder_start_done)

lemma conduct_reaches_meeting:
  assumes "prepare w settings (start_session w) = (Inr plan, st1)" and "start_audio w st1 = (None, st2)"
  shows "conduct w settings = guarded_session w settings plan st2"
    and "entries (transcript st2) = []" and "asked (trace st2) = []"
    and "\<not> stop_event st2" and "stream_set (recorder st2)"
proof -
  show "conduct w settings = guarded_session w settings plan st2"
    using assms by (simp add: conduct_def)
  have "transcript st1 = transcript (start_session w)" "stop_event st1 = stop_event (start_session w)"
    "asked (trace st1) = asked (trace (start_session w))"
    using prepare_frame [of w settings "start_session w"] assms(1) by simp_all
  moreover have "transcript st2 = transcript st1" "stop_event st2 = stop_event st1"
    "asked (trace st2) = asked (trace st1)"
    using start_audio_frame [of w st1] assms(2) by simp_all
  ultimately show "entries (transcript st2) = []" and "asked (trace st2) = []" and "\<not> stop_event st2"
    by (simp_all add: start_session_def new_transcript_def)
  show "stream_set (recorder st2)" using assms(2) by (rule start_audio_done)
qed


lemma transcribing_simps:
  "transcript (transcribing st) = transcript st"
  "stop_event (transcribing st) = stop_event st"
  "recorder (transcribing st) = recorder st"
  "asked (trace (transcribing st)) = asked (trace st)"
  by (simp_all add: transcribing_def emit_simps asked_append)


lemma wrap_up_frame:
  "stop_event (snd (wrap_up w settings st)) = stop_event st"
  "asked (trace (snd (wrap_up w settings st))) = asked (trace st)"
proof -
  let ?l = "ledger_append w (candidate_name settings) (candidate_text w (transcript st)) (transcribing st)"
  obtain r st2 where l: "?l = (r, st2)" by (cases ?l)
  have f: "stop_event st2 = stop_event st" "asked (trace st2) = asked (trace st)"
    using ledger_append_frame [of w "candidate_name settings" "candidate_text w (transcript st)" "transcribing st"] l
    by (simp_all add: transcribing_simps asked_append)
  show "stop_event (snd (wrap_up w settings st)) = stop_event st"
    using l f by (auto simp: wrap_up_def transcribing_simps emit_simps Let_def split: option.splits sum.splits)
  show "asked (trace (snd (wrap_up w settings st))) = asked (trace st)"
    using l f by (auto simp: wrap_up_def transcribing_simps emit_simps asked_append Let_def split: option.splits sum.splits)
qed


lemma wrap_up_done:
  assumes "wrap_up w settings st = (None, st')"
  shows "last (trace st') = Status ''Interview complete.''"
  using assms
  by (auto simp: wrap_up_def emit_simps Let_def split: option.splits sum.splits prod.splits)

lemma async_run_done:
  assumes "async_run w settings = (None, st)"
  obtains st3 where "conduct w settings = (None, st3)" and "wrap_up w settings st3 = (None, st)"
proof -
  obtain r st3 where c: "conduct w settings = (r, st3)" by (cases "conduct w settings")
  with assms have "r = None" by (cases r) (auto simp: async_run_def)
  with assms c that show ?thesis by (simp add: async_run_def)
qed




lemma process_step_asked:
  "set (asked (trace (snd (process_step w name i step st)))) \<subseteq> set (asked (trace st)) \<union> {i}"
proof (cases "question step")
  case (JString prompt)
  obtain r1 st1 where l: "ledger_append w name prompt st = (r1, st1)" by (cases "ledger_append w name prompt st")
  have f1: "asked (trace st1) = asked (trace st)"
    using ledger_append_frame(4) [of w name prompt st] l by (simp add: asked_append)
  let ?st2 = "emit (Transcript (join [CHR 0x0A] (entries (transcript st1)))) st1"
  let ?st3 = "emit (Call (TtsSpeak i)) ?st2"
  show ?thesis
  proof (cases "r1 = None \<and> fault w (TtsSpeak i) = None \<and> (\<exists>follows. iterate (followups step) = Inr follows)")
    case False
    then show ?thesis using JString l f1
      by (auto simp: process_step_def call_def emit_simps asked_append Let_def split: option.splits sum.splits)
  next
    case True
    then obtain follows where it: "iterate (followups step) = Inr follows" by blast
    obtain r4 st4 where a: "annotate w name follows ?st3 = (r4, st4)" by (cases "annotate w name follows ?st3")
    have f4: "asked (trace st4) = asked (trace st) @ [i]"
      using annotate_frame [of w name follows ?st3] a f1 by (simp add: emit_simps asked_append)
    show ?thesis using JString l True it a f4
      by (auto simp: process_step_def call_def emit_simps asked_append Let_def split: option.splits)
  qed
qed (auto simp: process_step_def)

lemma interview_asked:
  assumes "stop_called w j" and "i \<le> j"
  shows "set (asked (trace (snd (interview w name i plan st)))) \<subseteq> set (asked (trace st)) \<union> {i ..< j}"
  using assms
proof (induction plan arbitrary: i st)
  case Nil
  then show ?case by simp
next
  case (Cons step rest)
  let ?st0 = "st\<lparr> stop_event := stop_event st \<or> stop_called w i \<rparr>"
  show ?case
  proof (cases "stop_event ?st0")
    case True
    then show ?thesis by (simp add: Let_def)
  next
    case False
    then have "\<not> stop_called w i" by simp
    with Cons.prems have lt: "i < j" by (cases "j = i") auto
    obtain r st1 where p: "process_step w name i step ?st0 = (r, st1)" by (cases "process_step w name i step ?st0")
    have s1: "set (asked (trace st1)) \<subseteq> set (asked (trace st)) \<union> {i}"
      using process_step_asked [of w name i step ?st0] p by simp
    show ?thesis
    proof (cases r)
      case None
      have "set (asked (trace (snd (interview w name (Suc i) rest st1)))) \<subseteq> set (asked (trace st1)) \<union> {Suc i ..< j}"
        using Cons.IH [of "Suc i" st1] Cons.prems(1) lt by simp
      moreover have "{Suc i ..< j} \<subseteq> {i ..< j}" and "{i} \<subseteq> {i ..< j}" using lt by auto
      ultimately have "set (asked (trace (snd (interview w name (Suc i) rest st1)))) \<subseteq> set (asked (trace st)) \<union> {i ..< j}"
        using s1 by blast
      then show ?thesis using None False p by (simp add: Let_def)
    next
      case (Some e)
      then show ?thesis using False p s1 lt by (auto simp: Let_def)
    qed
  qed
qed

lemma wrap_up_trace:
  "\<exists>es. trace (snd (wrap_up w settings st)) = trace st @ es"
proof -
  let ?l = "ledger_append w (candidate_name settings) (candidate_text w (transcript st)) (transcribing st)"
  obtain r st2 where l: "?l = (r, st2)" by (cases ?l)
  have "\<exists>es. trace st2 = trace st @ es"
    using ledger_append_frame(4) [of w "candidate_name settings" "candidate_text w (transcript st)" "transcribing st"] l
    by (simp add: transcribing_def emit_simps)
  then show ?thesis using l
    by (auto simp: wrap_up_def transcribing_simps emit_simps Let_def split: option.splits sum.splits)
qed

lemma conduct_asked:
  assumes "stop_called w j"
  shows "set (asked (trace (snd (conduct w settings)))) \<subseteq> {0 ..< j}"
proof -
  obtain p st1 where p: "prepare w settings (start_session w) = (p, st1)"
    by (cases "prepare w settings (start_session w)")
  have a1: "asked (trace st1) = []"
    using prepare_frame(4) [of w settings "start_session w"] p by (simp add: start_session_def)
  show ?thesis
  proof (cases p)
    case (Inl e)
    then show ?thesis using p a1 by (simp add: conduct_def)
  next
    case (Inr plan)
    obtain r st2 where a: "start_audio w st1 = (r, st2)" by (cases "start_audio w st1")
    have a2: "asked (trace st2) = []" using start_audio_frame(3) [of w st1] a a1 by simp
    show ?thesis
    proof (cases r)
      case (Some e)
      then show ?thesis using p Inr a a2 by (simp add: conduct_def)
    next
      case None
      have c: "conduct w settings = guarded_session w settings plan st2"
        using p Inr a None by (simp add: conduct_def)
      have g: "asked (trace (snd (guarded_session w settings plan st2))) = asked (trace (snd (meet_session w settings plan st2)))"
        by (simp add: guarded_session_simps(2) asked_append)
      show ?thesis
      proof (cases "fault w MeetEnter")
        case (Some e)
        then show ?thesis using c g a2 by (simp add: meet_session_refused emit_simps asked_append)
      next
        case None
        let ?st = "emit (Status (''Connected to Google Meet. Beginning interview'' @ ellipsis)) (emit (Call MeetEnter) st2)"
        obtain ri st3 where i: "interview w (interviewer_name settings) 0 plan ?st = (ri, st3)"
          by (cases "interview w (interviewer_name settings) 0 plan ?st")
        have "set (asked (trace st3)) \<subseteq> set (asked (trace ?st)) \<union> {0 ..< j}"
          using interview_asked [OF assms, of 0 "interviewer_name settings" plan ?st] i by simp
        moreover have "asked (trace ?st) = []" using a2 by (simp add: emit_simps asked_append)
        ultimately show ?thesis using c g meet_session_entered(5) [OF None i] by simp
      qed
    qed
  qed
qed

lemma async_run_asked:
  "asked (trace (snd (async_run w settings))) = asked (trace (snd (conduct w settings)))"
  by (cases "conduct w settings") (auto simp: async_run_def wrap_up_frame split: option.splits)


subsection \<open>Transcription\<close>


lemma async_run_after_conduct:
  "conduct w settings = (None, st) \<Longrightarrow> async_run w settings = wrap_up w settings st"
  by (simp add: async_run_def)



subsection \<open>The ledger of a completed interview\<close>








subsection \<open>Cancellation\<close>

lemma demo_run_cancelled:
  "async_run cancelled_world keyed_settings
     = (None,
        \<lparr> trace = [Status (''Parsing CV document'' @ ellipsis), Call ExtractText,
               Status (''Generating interview flow with LLM'' @ ellipsis), Generate (build_prompt demo_flow),
               Call TtsInit, BridgeStart, Call VideoDir, Call MeetEnter,
               Status (''Connected to Google Meet. Beginning interview'' @ ellipsis),
               Call (LedgerWrite 0), Transcript ''AI: How are you?'', Call (TtsSpeak 0), Call (PageWait 0),
               Status (''Waiting for candidate response'' @ ellipsis), Sleep 20,
               Call SendChat, Call MeetLeave, Call MeetExit, BridgeStop,
               Call (LedgerWrite 1),
               Transcript (''AI: How are you?'' @ [CHR 0x0A] @
                 ''Bob: [Transcription unavailable: faster-whisper is not installed. Install it or provide an OpenAI key]''),
               Generate (''Transcript:'' @ [CHR 0x0A] @ ''AI: How are you?'' @ [CHR 0x0A] @
                 ''Bob: [Transcription unavailable: faster-whisper is not installed. Install it or provide an OpenAI key]''
                 @ [CHR 0x0A, CHR 0x0A] @
                 ''Summarise the interview transcript focusing on strengths, risks, and recommendations.''),
               Summary ''Strong candidate.'', Status ''Interview complete.''],
         transcript = \<lparr> entries = [''AI: How are you?'',
                          ''Bob: [Transcription unavailable: faster-whisper is not installed. Install it or provide an OpenAI key]''],
                        has_whisper = False,
                        file_content = Some (''AI: How are you?'' @ [CHR 0x0A] @
                          ''Bob: [Transcription unavailable: faster-whisper is not installed. Install it or provide an OpenAI key]''),
                        write_count = 2 \<rparr>,
         recorder = \<lparr> running = False, writer_set = False, stream_set = False, thread_set = True \<rparr>,
         stop_event = True \<rparr>)"
  by code_simp

text \<open>
  Claim C1, as stated: after a stop request the terminal state is Cancelled, never
  Completed. In a session of two steps in which \<open>stop()\<close> is called while the first
  step is processed, the loop ends before the second step, but the run goes on as after
  a completed loop: it returns without an exception, and the statuses it reports end
  with \<open>Interview complete.\<close>; no status tells of a cancellation.
\<close>

theorem cancelled_run_reports_complete:
  "stop_called cancelled_world 1
   \<and> fst (async_run cancelled_world keyed_settings) = None
   \<and> stop_event (snd (async_run cancelled_world keyed_settings))
   \<and> asked (trace (snd (async_run cancelled_world keyed_settings))) = [0]
   \<and> statuses (trace (snd (async_run cancelled_world keyed_settings)))
       = [''Parsing CV document'' @ ellipsis, ''Generating interview flow with LLM'' @ ellipsis,
          ''Connected to Google Meet. Beginning interview'' @ ellipsis,
          ''Waiting for candidate response'' @ ellipsis, ''Interview complete.'']"
proof -
  have "stop_called cancelled_world 1"
    by (simp add: cancelled_world_def demo_world_def at_boundary_def)
  then show ?thesis by (simp add: demo_run_cancelled)
qed

text \<open>
  Claim C1, amended. When \<open>stop()\<close> has been called by the time the loop reaches step
  \<open>k\<close>, no step with index \<open>k\<close> or more is processed: only steps before \<open>k\<close> are handed
  to the speech engine, the loop leaves the same result, trace and ledger as the loop
  over the first \<open>k\<close> steps, and for \<open>k\<close> inside the plan it ends by the cancellation
  flag or by an exception. The run then goes on as after a completed loop; when it
  returns without an exception, its last notification is the status
  \<open>Interview complete.\<close>
\<close>

theorem stop_ends_loop:
  assumes "stop_called w j" and "j \<le> k"
  shows "set (asked (trace (snd (async_run w settings)))) \<subseteq> {0 ..< k}
       \<and> fst (interview w name 0 plan st) = fst (interview w name 0 (take k plan) st)
       \<and> trace (snd (interview w name 0 plan st)) = trace (snd (interview w name 0 (take k plan) st))
       \<and> transcript (snd (interview w name 0 plan st)) = transcript (snd (interview w name 0 (take k plan) st))
       \<and> (k < length plan \<longrightarrow>
            fst (interview w name 0 plan st) \<noteq> None \<or> stop_event (snd (interview w name 0 plan st)))
       \<and> (fst (async_run w settings) = None \<longrightarrow>
            last (trace (snd (async_run w settings))) = Status ''Interview complete.'')"
proof -
  have "set (asked (trace (snd (async_run w settings)))) \<subseteq> {0 ..< j}"
    using conduct_asked [OF assms(1)] by (simp add: async_run_asked)
  then have a: "set (asked (trace (snd (async_run w settings)))) \<subseteq> {0 ..< k}"
    using assms(2) by fastforce
  have b: "fst (interview w name 0 plan st) = fst (interview w name 0 (take k plan) st)
       \<and> trace (snd (interview w name 0 plan st)) = trace (snd (interview w name 0 (take k plan) st))
       \<and> transcript (snd (interview w name 0 plan st)) = transcript (snd (interview w name 0 (take k plan) st))"
    using interview_truncated [OF assms(1), of 0 k name plan st] assms(2) by simp
  have c: "fst (interview w name 0 plan st) \<noteq> None \<or> stop_event (snd (interview w name 0 plan st))"
    if "k < length plan"
    using interview_cancelled [OF assms(1), of 0 plan name st] assms(2) that by simp
  have d: "last (trace (snd (async_run w settings))) = Status ''Interview complete.''"
    if "fst (async_run w settings) = None"
  proof -
    from that have "async_run w settings = (None, snd (async_run w settings))" by (simp add: prod_eq_iff)
    then obtain st3 where "wrap_up w settings st3 = (None, snd (async_run w settings))"
      by (rule async_run_done)
    then show ?thesis by (rule wrap_up_done)
  qed
  from a b c d show ?thesis by blast
qed

theorem stop_ends_loop_witness:
  "stop_called cancelled_world 1 \<and> (1::nat) \<le> 1
   \<and> set (asked (trace (snd (async_run cancelled_world
                               keyed_settings)))) \<subseteq> {0 ..< 1}
   \<and> last (trace (snd (async_run cancelled_world
                          keyed_settings))) = Status ''Interview complete.''"
proof -
  let ?w = "cancelled_world"
  let ?s = "keyed_settings"
  have s: "stop_called ?w 1" by (simp add: cancelled_world_def demo_world_def at_boundary_def)
  have n: "fst (async_run ?w ?s) = None" by (simp add: demo_run_cancelled)
  note t = stop_ends_loop [OF s order_refl, of ?s "''AI''" "[]" "start_session ?w"]
  from t have "set (asked (trace (snd (async_run ?w ?s)))) \<subseteq> {0 ..< 1}" by blast
  moreover from t n have "last (trace (snd (async_run ?w ?s))) = Status ''Interview complete.''" by blast
  ultimately show ?thesis using s by simp
qed

subsection \<open>Teardown\<close>

lemma demo_run_chat_fault:
  "async_run chat_fault_world keyed_settings
     = (Some (ExternalError ''chat panel missing''),
        \<lparr> trace = [Status (''Parsing CV document'' @ ellipsis), Call ExtractText,
               Status (''Generating interview flow with LLM'' @ ellipsis), Generate (build_prompt demo_flow),
               Call TtsInit, BridgeStart, Call VideoDir, Call MeetEnter,
               Status (''Connected to Google Meet. Beginning interview'' @ ellipsis),
               Call (LedgerWrite 0), Transcript ''AI: How are you?'', Call (TtsSpeak 0), Call (PageWait 0),
               Status (''Waiting for candidate response'' @ ellipsis), Sleep 20,
               Call (LedgerWrite 1), Transcript (''AI: How are you?'' @ [CHR 0x0A] @ ''AI: Why us?''),
               Call (TtsSpeak 1), Call (LedgerWrite 2), Call (PageWait 1),
               Status (''Waiting for candidate response'' @ ellipsis), Sleep 20,
               Call SendChat, Call MeetExit, BridgeStop],
         transcript = \<lparr> entries = [''AI: How are you?'', ''AI: Why us?'', ''AI: (Optional follow-up) Since when?''],
                        has_whisper = False,
                        file_content = Some (''AI: How are you?'' @ [CHR 0x0A] @ ''AI: Why us?'' @ [CHR 0x0A]
                                             @ ''AI: (Optional follow-up) Since when?''),
                        write_count = 3 \<rparr>,
         recorder = \<lparr> running = False, writer_set = False, stream_set = False, thread_set = True \<rparr>,
         stop_event = False \<rparr>)"
  by code_simp

lemma demo_prepare_chat_fault:
  "fst (prepare chat_fault_world keyed_settings (start_session chat_fault_world)) = Inr two_steps"
  by code_simp

lemma demo_audio_chat_fault:
  "fst (start_audio chat_fault_world (snd (prepare chat_fault_world keyed_settings (start_session chat_fault_world)))) = None"
  by code_simp

text \<open>
  Claim C2, as stated: a failure of either teardown action does not keep the session
  from proceeding to the transcription. In a session in which sending the closing
  message raises, the audio bridge is still stopped, but the run ends there with that
  exception: the candidate's entry is never appended and no summary is requested.
\<close>

theorem chat_failure_ends_run:
  "fault chat_fault_world SendChat = Some (ExternalError ''chat panel missing'')
   \<and> fst (async_run chat_fault_world keyed_settings) = Some (ExternalError ''chat panel missing'')
   \<and> last (trace (snd (async_run chat_fault_world keyed_settings))) = BridgeStop
   \<and> entries (transcript (snd (async_run chat_fault_world keyed_settings)))
       = [''AI: How are you?'', ''AI: Why us?'', ''AI: (Optional follow-up) Since when?'']"
proof -
  have "fault chat_fault_world SendChat = Some (ExternalError ''chat panel missing'')"
    by (simp add: chat_fault_world_def demo_world_def fault_at_def)
  then show ?thesis by (simp add: demo_run_chat_fault)
qed

text \<open>
  Claim C2, amended. Once the audio bridge has been started, \<open>bridge.stop\<close> is called
  however the meeting ends, so a failure of the closing message or of leaving does not
  keep the bridge from being stopped (and the bridge is stopped behind them, so its
  failure cannot keep them from running). But a failure is not absorbed: when sending
  the closing message, leaving, or stopping or closing the audio stream raises, the run
  ends with an exception at the \<open>finally\<close>, before the transcription.
\<close>

theorem teardown_not_absorbed:
  assumes "prepare w settings (start_session w) = (Inr plan, st1)"
    and "start_audio w st1 = (None, st2)"
  shows "BridgeStop \<in> set (trace (snd (async_run w settings)))
       \<and> (fault w SendChat \<noteq> None \<or> fault w MeetLeave \<noteq> None
            \<or> fault w StreamStop \<noteq> None \<or> fault w StreamClose \<noteq> None \<longrightarrow>
          fst (async_run w settings) \<noteq> None
          \<and> async_run w settings = guarded_session w settings plan st2
          \<and> last (trace (snd (async_run w settings))) = BridgeStop)"
proof -
  note m = conduct_reaches_meeting [OF assms]
  have tr: "trace (snd (conduct w settings)) = trace (snd (meet_session w settings plan st2)) @ [BridgeStop]"
    by (simp add: m(1) guarded_session_simps(2))
  have a: "BridgeStop \<in> set (trace (snd (async_run w settings)))"
  proof (cases "fst (conduct w settings)")
    case None
    then have "conduct w settings = (None, snd (conduct w settings))" by (simp add: prod_eq_iff)
    then have "async_run w settings = wrap_up w settings (snd (conduct w settings))"
      by (rule async_run_after_conduct)
    then show ?thesis using wrap_up_trace [of w settings "snd (conduct w settings)"] tr by auto
  next
    case (Some e)
    then have "async_run w settings = conduct w settings"
      by (cases "conduct w settings") (simp add: async_run_def)
    then show ?thesis using tr by simp
  qed
  have b: "fst (async_run w settings) \<noteq> None
          \<and> async_run w settings = guarded_session w settings plan st2
          \<and> last (trace (snd (async_run w settings))) = BridgeStop"
    if f: "fault w SendChat \<noteq> None \<or> fault w MeetLeave \<noteq> None
            \<or> fault w StreamStop \<noteq> None \<or> fault w StreamClose \<noteq> None"
  proof -
    have "fst (guarded_session w settings plan st2) \<noteq> None"
    proof (cases "fault w SendChat \<noteq> None \<or> fault w MeetLeave \<noteq> None")
      case True
      then have "fst (meet_session w settings plan st2) \<noteq> None" by (rule meet_session_farewell_fails)
      then show ?thesis by (simp add: guarded_session_simps(1) split: option.splits)
    next
      case False
      with f have s: "fault w StreamStop \<noteq> None \<or> fault w StreamClose \<noteq> None" by blast
      have "stream_set (recorder (snd (meet_session w settings plan st2)))"
        using m(5) by (simp add: meet_session_recorder)
      with s have "fst (stop_bridge w (snd (meet_session w settings plan st2))) \<noteq> None"
        by (auto simp: stop_bridge_simps(1) bridge_stop_def recorder_stop_def join_writer_def Let_def split: option.splits)
      then show ?thesis by (auto simp: guarded_session_simps(1) split: option.splits)
    qed
    then have c: "fst (conduct w settings) \<noteq> None" by (simp add: m(1))
    then have r: "async_run w settings = conduct w settings"
      by (cases "conduct w settings") (auto simp: async_run_def)
    show ?thesis using c r tr m(1) by simp
  qed
  from a b show ?thesis by blast
qed

theorem teardown_not_absorbed_witness:
  "fst (prepare chat_fault_world keyed_settings (start_session chat_fault_world)) = Inr two_steps
   \<and> fst (start_audio chat_fault_world (snd (prepare chat_fault_world keyed_settings (start_session chat_fault_world)))) = None
   \<and> fault chat_fault_world SendChat \<noteq> None
   \<and> BridgeStop \<in> set (trace (snd (async_run chat_fault_world keyed_settings)))
   \<and> fst (async_run chat_fault_world keyed_settings) \<noteq> None"
proof -
  let ?w = chat_fault_world
  let ?p = "prepare ?w keyed_settings (start_session ?w)"
  have p: "?p = (Inr two_steps, snd ?p)" using demo_prepare_chat_fault by (simp add: prod_eq_iff)
  have a: "start_audio ?w (snd ?p) = (None, snd (start_audio ?w (snd ?p)))"
    using demo_audio_chat_fault by (simp add: prod_eq_iff)
  have f: "fault ?w SendChat \<noteq> None" by (simp add: chat_fault_world_def demo_world_def fault_at_def)
  note t = teardown_not_absorbed [OF p a]
  from t have "BridgeStop \<in> set (trace (snd (async_run ?w keyed_settings)))" by blast
  moreover from t f have "fst (async_run ?w keyed_settings) \<noteq> None" by blast
  ultimately show ?thesis using demo_prepare_chat_fault demo_audio_chat_fault f by blast
qed


end
